theory Spec2Isabelle
  imports Complex_Main "HOL-Library.Word"
begin

unbundle bit_operations_syntax

section \<open>Exceptions of the firmware\<close>

text \<open>
  The Python exceptions that the modelled functions raise or catch.  A function that
  can raise returns \<open>py_error + 'a\<close>, with \<open>Inl\<close> for the exception.
\<close>

datatype py_error = ValueError | OSError | IndexError | ZeroDivisionError

section \<open>Multiplexer driver (mux.py)\<close>

text \<open>
  \<open>Multiplexer\<close> owns the enable pin and the list of control pins; a pin is
  modelled by the level last written to it with \<open>Pin.value\<close>.
\<close>

record multiplexer =
  en :: int
  control_pins :: "int list"

definition disable :: "multiplexer \<Rightarrow> multiplexer" where
  "disable m = m\<lparr>en := 1\<rparr>"

definition enable :: "multiplexer \<Rightarrow> multiplexer" where
  "enable m = m\<lparr>en := 0\<rparr>"

text \<open>The binary digits of a natural number, most significant first (format code \<open>b\<close>).\<close>

fun bin_digits :: "nat \<Rightarrow> int list" where
  "bin_digits n = (if n < 2 then [int n] else bin_digits (n div 2) @ [int (n mod 2)])"

declare bin_digits.simps [simp del]

text \<open>\<open>"{:04b}".format(channel)\<close> for a non-negative channel: zero-padded to width 4.\<close>

definition format_04b :: "int \<Rightarrow> int list" where
  "format_04b channel =
     (let ds = bin_digits (nat channel) in replicate (4 - length ds) 0 @ ds)"

text \<open>
  \<open>for pin, val in zip(self.control_pins, bits): pin.value(val)\<close>: the pins that have
  a partner in \<open>bits\<close> take its value, the others keep theirs.
\<close>

fun write_pins :: "int list \<Rightarrow> int list \<Rightarrow> int list" where
  "write_pins (p # ps) (b # bs) = b # write_pins ps bs"
| "write_pins ps [] = ps"
| "write_pins [] bs = []"

definition select_channel :: "int \<Rightarrow> multiplexer \<Rightarrow> (py_error + unit) \<times> multiplexer" where
  "select_channel channel m =
     (if \<not> (0 \<le> channel \<and> channel \<le> 15) then (Inl ValueError, m)
      else
        let m1 = enable m;
            bits = format_04b channel
        in (Inr (), m1\<lparr>control_pins := write_pins (control_pins m1) bits\<rparr>))"

section \<open>The shared I2C bus\<close>

text \<open>
  The bus is the hardware behind \<open>machine.I2C\<close>.  \<open>device\<close> gives the answer to
  the k-th transaction (\<open>Nack\<close>: the transaction raises \<open>OSError\<close>), and \<open>issued\<close>
  records every transaction put on the bus, failed ones included.
\<close>

datatype i2c_reply = Nack | Reply "8 word list"

datatype i2c_op = WriteTo nat "8 word list" | ReadFrom nat nat

record i2c_bus =
  device :: "nat \<Rightarrow> i2c_reply"
  issued :: "i2c_op list"

definition writeto :: "nat \<Rightarrow> 8 word list \<Rightarrow> i2c_bus \<Rightarrow> (py_error + unit) \<times> i2c_bus" where
  "writeto addr buf bus =
     (let bus' = bus\<lparr>issued := issued bus @ [WriteTo addr buf]\<rparr>
      in case device bus (length (issued bus)) of
           Nack \<Rightarrow> (Inl OSError, bus')
         | Reply _ \<Rightarrow> (Inr (), bus'))"

text \<open>\<open>readfrom(addr, n)\<close> returns exactly \<open>n\<close> bytes.\<close>

definition readfrom :: "nat \<Rightarrow> nat \<Rightarrow> i2c_bus \<Rightarrow> (py_error + 8 word list) \<times> i2c_bus" where
  "readfrom addr n bus =
     (let bus' = bus\<lparr>issued := issued bus @ [ReadFrom addr n]\<rparr>
      in case device bus (length (issued bus)) of
           Nack \<Rightarrow> (Inl OSError, bus')
         | Reply bs \<Rightarrow> (Inr (take n (bs @ replicate n 0)), bus'))"

text \<open>
  A scripted device for concrete runs: it answers the transactions from a list, in
  order, and stops responding when the list is used up.
\<close>

definition replies :: "i2c_reply list \<Rightarrow> nat \<Rightarrow> i2c_reply" where
  "replies rs k = (if k < length rs then rs ! k else Nack)"

section \<open>CO2 / temperature / humidity driver (sensors.py, SCD40Sensor)\<close>

definition SCD40_ADDRESS :: nat where
  "SCD40_ADDRESS = 0x62"

text \<open>
  \<open>start_periodic_measurement\<close>: the \<open>OSError\<close> of the write is caught in both
  branches of the handler, so only the bus changes.
\<close>

definition start_periodic_measurement :: "i2c_bus \<Rightarrow> i2c_bus" where
  "start_periodic_measurement bus = snd (writeto SCD40_ADDRESS [0x21, 0xb1] bus)"

text \<open>
  \<open>crc8\<close>.  \<open>crc\<close> is a Python integer, so the shift does not wrap and the mask
  \<open>crc &= 0xFF\<close> is written out.  \<open>crc_shift\<close> is the body of the inner loop,
  \<open>crc_bits n\<close> runs it \<open>n\<close> times, \<open>crc_byte\<close> is the body of the outer loop.
\<close>

definition crc_shift :: "int \<Rightarrow> int" where
  "crc_shift crc =
     (if crc AND 0x80 \<noteq> 0 then push_bit 1 crc XOR 0x31 else push_bit 1 crc) AND 0xFF"

primrec crc_bits :: "nat \<Rightarrow> int \<Rightarrow> int" where
  "crc_bits 0 crc = crc"
| "crc_bits (Suc n) crc = crc_bits n (crc_shift crc)"

definition crc_byte :: "int \<Rightarrow> 8 word \<Rightarrow> int" where
  "crc_byte crc byte = crc_bits 8 (crc XOR uint byte)"

definition crc8 :: "8 word list \<Rightarrow> int" where
  "crc8 data = foldl crc_byte 0xFF data"

text \<open>
  \<open>parse_word\<close>, the closure of \<open>read_sensor\<close>: \<open>ValueError\<close> on a checksum
  mismatch, \<open>IndexError\<close> where \<open>data[start_index+2]\<close> is out of range.
\<close>

definition parse_word :: "8 word list \<Rightarrow> nat \<Rightarrow> py_error + int" where
  "parse_word data start_index =
     (let raw = take 2 (drop start_index data)
      in if length data \<le> start_index + 2 then Inl IndexError
         else if crc8 raw \<noteq> uint (data ! (start_index + 2)) then Inl ValueError
         else Inr (push_bit 8 (uint (raw ! 0)) OR uint (raw ! 1)))"

text \<open>
  \<open>round(x, 2)\<close>: MicroPython computes \<open>nearbyint(x * 100) / 100\<close>.  Floats are
  modelled by the reals.  Where \<open>x * 100\<close> lies exactly halfway between two integers,
  the float that the runtime holds for it may lie on either side of the tie, so which
  neighbour comes out there is the runtime's business: the parameter \<open>up\<close> says
  whether the tie goes up.  \<open>half_even\<close> is the choice of \<open>nearbyint\<close> when the float
  is the tie itself.
\<close>

definition nearbyint :: "(real \<Rightarrow> bool) \<Rightarrow> real \<Rightarrow> int" where
  "nearbyint up x =
     (let f = \<lfloor>x\<rfloor>; d = x - of_int f
      in if d < 1 / 2 then f else if 1 / 2 < d then f + 1
         else if up x then f + 1 else f)"

definition round2 :: "(real \<Rightarrow> bool) \<Rightarrow> real \<Rightarrow> real" where
  "round2 up x = of_int (nearbyint up (x * 100)) / 100"

definition half_even :: "real \<Rightarrow> bool" where
  "half_even x \<longleftrightarrow> odd \<lfloor>x\<rfloor>"

type_synonym scd40_reading = "int option \<times> real option \<times> real option"

text \<open>
  \<open>SCD40Sensor.read_sensor\<close>.  Every exception inside the \<open>try\<close> block ends in
  \<open>return None, None, None\<close>.
\<close>

definition SCD40_read_sensor ::
  "(real \<Rightarrow> bool) \<Rightarrow> i2c_bus \<Rightarrow> scd40_reading \<times> i2c_bus" where
  "SCD40_read_sensor up bus =
     (case writeto SCD40_ADDRESS [0xEC, 0x05] bus of
        (Inl e, bus1) \<Rightarrow> ((None, None, None), bus1)
      | (Inr u, bus1) \<Rightarrow>
          (case readfrom SCD40_ADDRESS 9 bus1 of
             (Inl e, bus2) \<Rightarrow> ((None, None, None), bus2)
           | (Inr data, bus2) \<Rightarrow>
               (case parse_word data 0 of
                  Inl e \<Rightarrow> ((None, None, None), bus2)
                | Inr co2 \<Rightarrow>
                    (case parse_word data 3 of
                       Inl e \<Rightarrow> ((None, None, None), bus2)
                     | Inr temp_raw \<Rightarrow>
                         (case parse_word data 6 of
                            Inl e \<Rightarrow> ((None, None, None), bus2)
                          | Inr rh_raw \<Rightarrow>
                              (let temp = - 45 + 175 * (real_of_int temp_raw / 65535);
                                   humidity = 100 * (real_of_int rh_raw / 65535)
                               in ((Some co2, Some (round2 up temp), Some (round2 up humidity)),
                                   bus2)))))))"

text \<open>\<open>SCD40Sensor(i2c)\<close>: the constructor starts the periodic measurement.\<close>

definition SCD40Sensor_init :: "i2c_bus \<Rightarrow> i2c_bus" where
  "SCD40Sensor_init bus = start_periodic_measurement bus"

subsection \<open>The reference CRC-8 of the specification\<close>

text \<open>
  The CRC-8 as the specification words it: generator polynomial \<open>poly\<close>, initial value
  \<open>init\<close>, no reflection of input or output and no final XOR.  The register is 8 bits
  wide; the message is fed one bit at a time, each byte most significant bit first.  A
  step shifts the register left and subtracts the generator when the bit shifted out
  differs from the message bit.
\<close>

definition msb_first :: "8 word \<Rightarrow> bool list" where
  "msb_first b = map (\<lambda>i. bit b (7 - i)) [0..<8]"

definition ref_feed :: "8 word \<Rightarrow> 8 word \<Rightarrow> bool \<Rightarrow> 8 word" where
  "ref_feed poly reg inp =
     (if bit reg 7 \<noteq> inp then push_bit 1 reg XOR poly else push_bit 1 reg)"

definition crc8_reference :: "8 word \<Rightarrow> 8 word \<Rightarrow> 8 word list \<Rightarrow> 8 word" where
  "crc8_reference poly init msg = foldl (ref_feed poly) init (concat (map msb_first msg))"

text \<open>Flipping bit \<open>i\<close> (0 the least significant) of the 16-bit word \<open>[hi, lo]\<close>.\<close>

definition flip_bit16 :: "nat \<Rightarrow> 8 word list \<Rightarrow> 8 word list" where
  "flip_bit16 i w =
     (case w of
        [hi, lo] \<Rightarrow> if i < 8 then [hi, lo XOR push_bit i 1] else [hi XOR push_bit (i - 8) 1, lo]
      | _ \<Rightarrow> w)"

section \<open>Dissolved-oxygen driver (sensors.py, GravitySensor)\<close>

definition ADDRESS_3 :: nat where
  "ADDRESS_3 = 0x73"

definition OXYGEN_DATA_REGISTER :: "8 word" where
  "OXYGEN_DATA_REGISTER = 0x03"

definition GET_KEY_REGISTER :: "8 word" where
  "GET_KEY_REGISTER = 0x0A"

definition MAX_BUFFER_SIZE :: int where
  "MAX_BUFFER_SIZE = 101"

definition DEFAULT_COLLECT_NUM :: int where
  "DEFAULT_COLLECT_NUM = 10"

text \<open>
  The fields \<open>_addr\<close>, \<open>_key\<close>, \<open>_count\<close>, \<open>_oxygendata\<close> and \<open>_init_success\<close>.
  \<open>_count\<close> starts at 0 and only ever becomes \<open>min(_count + 1, collect_num)\<close> with a
  positive \<open>collect_num\<close>, so it is a natural number.  Floats are modelled by the reals.
\<close>

record gravity_sensor =
  g_addr :: nat
  g_key :: real
  g_count :: nat
  g_oxygendata :: "real list"
  g_init_success :: bool

text \<open>\<open>read_reg\<close>: any failure of the two bus transactions is re-raised as \<open>OSError\<close>.\<close>

definition read_reg ::
  "nat \<Rightarrow> 8 word \<Rightarrow> nat \<Rightarrow> i2c_bus \<Rightarrow> (py_error + 8 word list) \<times> i2c_bus" where
  "read_reg addr reg len bus =
     (case writeto addr [reg] bus of
        (Inl e, bus1) \<Rightarrow> (Inl OSError, bus1)
      | (Inr u, bus1) \<Rightarrow>
          (case readfrom addr len bus1 of
             (Inl e, bus2) \<Rightarrow> (Inl OSError, bus2)
           | (Inr data, bus2) \<Rightarrow> (Inr data, bus2)))"

definition get_flash ::
  "gravity_sensor \<Rightarrow> i2c_bus \<Rightarrow> (py_error + unit) \<times> gravity_sensor \<times> i2c_bus" where
  "get_flash s bus =
     (case read_reg (g_addr s) GET_KEY_REGISTER 1 bus of
        (Inl e, bus1) \<Rightarrow> (Inl e, s, bus1)
      | (Inr result, bus1) \<Rightarrow>
          (case result of
             [] \<Rightarrow> (Inl IndexError, s, bus1)
           | v # rest \<Rightarrow>
               (Inr (),
                s\<lparr>g_key := (if v = 0 then 20.9 / 120.0 else real (unat v) / 1000.0)\<rparr>,
                bus1)))"

text \<open>
  \<open>for i in range(collect_num - 1, 0, -1): self._oxygendata[i] = self._oxygendata[i - 1]\<close>;
  \<open>shift_history i\<close> runs the loop from index \<open>i\<close> down to 1.  The list has
  \<open>MAX_BUFFER_SIZE\<close> entries and \<open>i < collect_num \<le> MAX_BUFFER_SIZE\<close>, so every index
  is in range.
\<close>

fun shift_history :: "nat \<Rightarrow> real list \<Rightarrow> real list" where
  "shift_history 0 xs = xs"
| "shift_history (Suc i) xs = shift_history i (xs[Suc i := xs ! i])"

text \<open>\<open>_average\<close>: \<open>sum(array[:length]) / float(length)\<close>.\<close>

definition average :: "real list \<Rightarrow> nat \<Rightarrow> py_error + real" where
  "average array len =
     (if len = 0 then Inl ZeroDivisionError else Inr (sum_list (take len array) / real len))"

definition get_oxygen_data ::
  "int \<Rightarrow> gravity_sensor \<Rightarrow> i2c_bus \<Rightarrow> (py_error + real) \<times> gravity_sensor \<times> i2c_bus" where
  "get_oxygen_data collect_num s bus =
     (if collect_num \<le> 0 \<or> collect_num > MAX_BUFFER_SIZE then (Inr (- 1.0), s, bus)
      else
        case get_flash s bus of
          (Inl e, s1, bus1) \<Rightarrow> (Inl e, s1, bus1)
        | (Inr u, s1, bus1) \<Rightarrow>
            (let s2 = s1\<lparr>g_oxygendata := shift_history (nat (collect_num - 1)) (g_oxygendata s1)\<rparr>
             in case read_reg (g_addr s2) OXYGEN_DATA_REGISTER 3 bus1 of
                  (Inl e, bus2) \<Rightarrow> (Inl e, s2, bus2)
                | (Inr result, bus2) \<Rightarrow>
                    (case result of
                       b0 # b1 # b2 # rest \<Rightarrow>
                         (let val = g_key s2 *
                                (real (unat b0) + real (unat b1) / 10.0 + real (unat b2) / 100.0);
                              s3 = s2\<lparr>g_oxygendata := (g_oxygendata s2)[0 := val]\<rparr>;
                              s4 = s3\<lparr>g_count := nat (min (int (g_count s3) + 1) collect_num)\<rparr>
                          in (average (g_oxygendata s4) (g_count s4), s4, bus2))
                     | _ \<Rightarrow> (Inl IndexError, s2, bus2))))"

definition Gravity_read_sensor ::
  "(real \<Rightarrow> bool) \<Rightarrow> int \<Rightarrow> gravity_sensor \<Rightarrow> i2c_bus \<Rightarrow>
   (py_error + real) \<times> gravity_sensor \<times> i2c_bus" where
  "Gravity_read_sensor up collect_num s bus =
     (if \<not> g_init_success s then (Inr (- 1.0), s, bus)
      else
        case get_oxygen_data collect_num s bus of
          (Inl e, s1, bus1) \<Rightarrow> (Inl e, s1, bus1)
        | (Inr v, s1, bus1) \<Rightarrow> (Inr (round2 up v), s1, bus1))"

definition try_initialize :: "gravity_sensor \<Rightarrow> i2c_bus \<Rightarrow> bool \<times> gravity_sensor \<times> i2c_bus" where
  "try_initialize s bus =
     (case read_reg (g_addr s) OXYGEN_DATA_REGISTER 1 bus of
        (Inl e, bus1) \<Rightarrow> (False, s, bus1)
      | (Inr r, bus1) \<Rightarrow>
          (case get_flash s bus1 of
             (Inl e, s1, bus2) \<Rightarrow> (False, s1, bus2)
           | (Inr u, s1, bus2) \<Rightarrow> (True, s1, bus2)))"

text \<open>\<open>GravitySensor(i2c)\<close>, with the default address.\<close>

definition GravitySensor_init :: "i2c_bus \<Rightarrow> gravity_sensor \<times> i2c_bus" where
  "GravitySensor_init bus =
     (let s = \<lparr>g_addr = ADDRESS_3, g_key = 20.9 / 120.0, g_count = 0,
                g_oxygendata = replicate (nat MAX_BUFFER_SIZE) 0.0, g_init_success = False\<rparr>
      in case try_initialize s bus of
           (ok, s1, bus1) \<Rightarrow> (s1\<lparr>g_init_success := ok\<rparr>, bus1))"


text \<open>
  The history the driver is meant to keep: \<open>hist\<close> lists every calibrated sample taken
  so far, the most recent first, and the first \<open>_count\<close> entries of \<open>_oxygendata\<close>
  are the \<open>_count\<close> most recent of them.
\<close>

definition history_ok :: "gravity_sensor \<Rightarrow> real list \<Rightarrow> bool" where
  "history_ok s hist \<longleftrightarrow>
     length (g_oxygendata s) = nat MAX_BUFFER_SIZE \<and> g_count s \<le> length hist \<and>
     take (g_count s) (g_oxygendata s) = take (g_count s) hist"

section \<open>Readings\<close>

text \<open>
  The values a sensor hands to the pipeline: \<open>None\<close>, an integer, a float, a tuple
  (\<open>SCD40Sensor.read_sensor\<close> returns one) or a list.  A reading is the dictionary that
  \<open>record_data\<close> appends to its batch.
\<close>

datatype pyval = PNone | PInt int | PFloat real | PTuple "pyval list" | PList "pyval list"

record reading =
  r_timestamp :: real
  r_channel :: int
  r_sensor_type :: string
  r_data :: pyval

section \<open>Wireless sink (ble_sender.py, BLEPeripheral)\<close>

text \<open>
  A frame is the slice of readings that is serialized into one notification.  \<open>b_ops\<close>
  lists the calls made on the radio stack, \<open>b_active\<close> is the state set by
  \<open>ble.active\<close>.
\<close>

type_synonym frame = "reading list"

datatype ble_op =
    BleActive bool
  | BleIrq
  | RegisterServices
  | GapAdvertise string
  | GattsWrite frame
  | GattsNotify nat frame

record ble_peripheral =
  b_name :: string
  b_buffer :: "reading list"
  b_conn_handle :: "nat option"
  b_active :: bool
  b_ops :: "ble_op list"

text \<open>
  What the radio stack does with the k-th frame of a send: both calls return, or
  \<open>gatts_write\<close> raises, or \<open>gatts_notify\<close> raises.
\<close>

datatype tx_outcome = TxOk | WriteRaises | NotifyRaises

definition advertise :: "ble_peripheral \<Rightarrow> ble_peripheral" where
  "advertise b = b\<lparr>b_ops := b_ops b @ [GapAdvertise (b_name b)]\<rparr>"

text \<open>\<open>bt_irq\<close>: event 1 carries the connection handle, event 2 is the disconnection.\<close>

definition bt_irq :: "int \<Rightarrow> nat \<Rightarrow> ble_peripheral \<Rightarrow> ble_peripheral" where
  "bt_irq event handle b =
     (if event = 1 then b\<lparr>b_conn_handle := Some handle\<rparr>
      else if event = 2 then b\<lparr>b_conn_handle := None\<rparr>
      else b)"

definition shutdown_ble :: "ble_peripheral \<Rightarrow> ble_peripheral" where
  "shutdown_ble b = b\<lparr>b_active := False, b_ops := b_ops b @ [BleActive False]\<rparr>"

definition enable_ble :: "ble_peripheral \<Rightarrow> ble_peripheral" where
  "enable_ble b =
     advertise (b\<lparr>b_active := True, b_conn_handle := None,
                  b_ops := b_ops b @ [BleActive True, BleIrq, RegisterServices]\<rparr>)"

text \<open>
  The loop \<open>for i in range(0, len(all_data), BATCH_SIZE)\<close> of \<open>send_data\<close>, from
  index \<open>i\<close> on.  It returns whether every frame went out, and the radio calls made.
\<close>

definition BATCH_SIZE :: nat where
  "BATCH_SIZE = 2"

function send_frames ::
  "(nat \<Rightarrow> tx_outcome) \<Rightarrow> nat \<Rightarrow> reading list \<Rightarrow> nat \<Rightarrow> ble_op list \<Rightarrow> bool \<times> ble_op list" where
  "send_frames radio conn all_data i ops =
     (if i < length all_data then
        (let batch = take BATCH_SIZE (drop i all_data)
         in case radio (i div BATCH_SIZE) of
              WriteRaises \<Rightarrow> (False, ops)
            | NotifyRaises \<Rightarrow> (False, ops @ [GattsWrite batch])
            | TxOk \<Rightarrow>
                send_frames radio conn all_data (i + BATCH_SIZE)
                  (ops @ [GattsWrite batch, GattsNotify conn batch]))
      else (True, ops))"
  by pat_completeness auto
termination
  by (relation "measure (\<lambda>(radio, conn, all_data, i, ops). length all_data - i)")
     (auto simp: BATCH_SIZE_def)

declare send_frames.simps [simp del]

definition send_data :: "(nat \<Rightarrow> tx_outcome) \<Rightarrow> reading list \<Rightarrow> ble_peripheral \<Rightarrow> ble_peripheral" where
  "send_data radio data b =
     (case b_conn_handle b of
        None \<Rightarrow> enable_ble (b\<lparr>b_buffer := b_buffer b @ data\<rparr>)
      | Some conn \<Rightarrow>
          (let b1 = b\<lparr>b_buffer := b_buffer b @ data\<rparr>
           in case send_frames radio conn (b_buffer b1) 0 (b_ops b1) of
                (True, ops) \<Rightarrow> shutdown_ble (b1\<lparr>b_buffer := [], b_ops := ops\<rparr>)
              | (False, ops) \<Rightarrow> b1\<lparr>b_buffer := b_buffer b1 @ data, b_ops := ops\<rparr>))"

text \<open>
  A scripted radio for concrete runs: the outcomes of the first frames from a list, every
  later frame goes out.
\<close>

definition radio_script :: "tx_outcome list \<Rightarrow> nat \<Rightarrow> tx_outcome" where
  "radio_script outcomes k = (if k < length outcomes then outcomes ! k else TxOk)"

text \<open>A sample reading of the oxygen sensor taken at \<open>t\<close> seconds, for concrete runs.\<close>

definition o2_reading :: "int \<Rightarrow> reading" where
  "o2_reading t =
     \<lparr>r_timestamp = of_int t, r_channel = 0, r_sensor_type = ''O2'', r_data = PFloat 20.9\<rparr>"

text \<open>The frames that reached the peer: the payloads of the \<open>gatts_notify\<close> calls.\<close>

fun notified :: "ble_op list \<Rightarrow> frame list" where
  "notified [] = []"
| "notified (GattsNotify conn f # ops) = f # notified ops"
| "notified (op # ops) = notified ops"

text \<open>Cutting a list into consecutive slices of at most \<open>n\<close> elements.\<close>

fun chunks :: "nat \<Rightarrow> 'a list \<Rightarrow> 'a list list" where
  "chunks n [] = []"
| "chunks n (x # xs) = take (max 1 n) (x # xs) # chunks n (drop (max 1 n) (x # xs))"

section \<open>Durable log sink (sd_manager.py, SDCardLogger)\<close>

text \<open>
  The file system: whether \<open>/sd\<close> is mounted, the content of every file by its full
  path, and the names of the directories inside \<open>/sd\<close>.  The directories on the path
  of the log file are taken to exist, so that \<open>open\<close> does not raise.  The logger
  keeps in \<open>data_buffer\<close> the list objects it was handed; an object is known by its
  reference, since \<open>log_data\<close> stores the caller's list itself, not a copy.
\<close>

record sd_card =
  mounted :: bool
  files :: "string \<rightharpoonup> string"
  subdirs :: "string set"

text \<open>\<open>name in os.listdir('/sd')\<close>: a file or a directory directly inside \<open>/sd\<close>.\<close>

definition in_listdir_sd :: "sd_card \<Rightarrow> string \<Rightarrow> bool" where
  "in_listdir_sd sd name \<longleftrightarrow>
     CHR ''/'' \<notin> set name \<and> (''/sd/'' @ name \<in> dom (files sd) \<or> name \<in> subdirs sd)"

type_synonym list_ref = nat

record sd_logger =
  l_data_buffer :: "list_ref list"
  l_device_name :: string
  l_timer :: real
  l_log_file :: string

text \<open>\<open>self.log_file.split('/')[-1]\<close>.\<close>

definition basename :: "string \<Rightarrow> string" where
  "basename path = rev (takeWhile (\<lambda>c. c \<noteq> CHR ''/'') (rev path))"

definition header :: string where
  "header = ''timestamp,channel_id,sensor_type,data'' @ [CHR 0x0A]"

text \<open>
  \<open>_prepare_log_file\<close>: the test looks for the base name in \<open>/sd\<close>, while
  \<open>open(self.log_file, 'w')\<close> creates or truncates the file at the full path.
\<close>

definition prepare_log_file :: "sd_logger \<Rightarrow> sd_card \<Rightarrow> sd_card" where
  "prepare_log_file lg sd =
     (if \<not> in_listdir_sd sd (basename (l_log_file lg))
      then sd\<lparr>files := (files sd)(l_log_file lg \<mapsto> header)\<rparr>
      else sd)"

text \<open>\<open>str\<close> of an integer.\<close>

fun str_nat :: "nat \<Rightarrow> string" where
  "str_nat n =
     (if n < 10 then [''0123456789'' ! n]
      else str_nat (n div 10) @ [''0123456789'' ! (n mod 10)])"

declare str_nat.simps [simp del]

definition str_int :: "int \<Rightarrow> string" where
  "str_int i = (if i < 0 then CHR ''-'' # str_nat (nat (- i)) else str_nat (nat i))"

text \<open>\<open>sep.join(parts)\<close>.\<close>

fun join :: "string \<Rightarrow> string list \<Rightarrow> string" where
  "join sep [] = []"
| "join sep [x] = x"
| "join sep (x # y # ys) = x @ sep @ join sep (y # ys)"

text \<open>
  \<open>str\<close> of a value.  The text of a float is the runtime's business and is the
  parameter \<open>fstr\<close>.  A tuple prints in parentheses and a list in brackets, with the
  items separated by a comma and a space; a tuple of one item has a trailing comma.
\<close>

fun py_str :: "(real \<Rightarrow> string) \<Rightarrow> pyval \<Rightarrow> string" where
  "py_str fstr PNone = ''None''"
| "py_str fstr (PInt i) = str_int i"
| "py_str fstr (PFloat x) = fstr x"
| "py_str fstr (PTuple vs) =
     (case vs of
        [v] \<Rightarrow> ''('' @ py_str fstr v @ '',)''
      | _ \<Rightarrow> ''('' @ join '', '' (map (py_str fstr) vs) @ '')'')"
| "py_str fstr (PList vs) = ''['' @ join '', '' (map (py_str fstr) vs) @ '']''"

text \<open>\<open>_format_data\<close>: only a \<open>list\<close> is comma-joined.\<close>

definition format_data :: "(real \<Rightarrow> string) \<Rightarrow> pyval \<Rightarrow> string" where
  "format_data fstr d =
     (case d of
        PList vs \<Rightarrow> join '','' (map (py_str fstr) vs)
      | _ \<Rightarrow> py_str fstr d)"

text \<open>\<open>int(x)\<close> of a float truncates towards zero.\<close>

definition py_int :: "real \<Rightarrow> int" where
  "py_int x = (if 0 \<le> x then \<lfloor>x\<rfloor> else \<lceil>x\<rceil>)"

definition log_line :: "(real \<Rightarrow> string) \<Rightarrow> sd_logger \<Rightarrow> reading \<Rightarrow> string" where
  "log_line fstr lg entry =
     str_int (py_int (r_timestamp entry / l_timer lg)) @ '','' @ l_device_name lg @ '','' @
     str_int (r_channel entry) @ '','' @ r_sensor_type entry @ '','' @
     format_data fstr (r_data entry) @ [CHR 0x0A]"

text \<open>
  The loop over the entries inside \<open>with open(self.log_file, 'a')\<close>, on the content of
  the open file.  A zero \<open>timer\<close> raises \<open>ZeroDivisionError\<close> at the first entry; the
  handler of \<open>log_data\<close> catches it, and what was written before stays.
\<close>

fun write_entries :: "(real \<Rightarrow> string) \<Rightarrow> sd_logger \<Rightarrow> reading list \<Rightarrow> string \<Rightarrow> string" where
  "write_entries fstr lg [] content = content"
| "write_entries fstr lg (entry # rest) content =
     (if l_timer lg = 0 then content
      else write_entries fstr lg rest (content @ log_line fstr lg entry))"

text \<open>
  \<open>log_data\<close>, called with the list object \<open>ref\<close> whose content is \<open>entries\<close>.
  \<open>os.statvfs("/sd")\<close> raises when the card is not mounted, which ends the \<open>try\<close>
  block before anything is written.
\<close>

definition log_data ::
  "(real \<Rightarrow> string) \<Rightarrow> list_ref \<Rightarrow> reading list \<Rightarrow> sd_logger \<Rightarrow> sd_card \<Rightarrow> sd_logger \<times> sd_card" where
  "log_data fstr ref entries lg sd =
     (let lg1 = lg\<lparr>l_data_buffer := l_data_buffer lg @ [ref]\<rparr>
      in if \<not> mounted sd then (lg1, sd)
         else
           let sd1 = prepare_log_file lg1 sd;
               path = l_log_file lg1;
               content = (case files sd1 path of None \<Rightarrow> [] | Some c \<Rightarrow> c)
           in (lg1, sd1\<lparr>files := (files sd1)(path \<mapsto> write_entries fstr lg1 entries content)\<rparr>))"

definition clear_buffer :: "sd_logger \<Rightarrow> sd_logger" where
  "clear_buffer lg = lg\<lparr>l_data_buffer := []\<rparr>"

text \<open>The lines of a file: the text before each newline, and what follows the last one.\<close>

fun file_lines :: "string \<Rightarrow> string list" where
  "file_lines [] = []"
| "file_lines (c # cs) =
     (if c = CHR 0x0A then [] # file_lines cs
      else case file_lines cs of [] \<Rightarrow> [[c]] | l # ls \<Rightarrow> (c # l) # ls)"

section \<open>Acquisition loop (master.py, record_data)\<close>

text \<open>
  \<open>channel_maps\<close> maps a channel to its configuration; the dictionary is iterated in
  insertion order, so it is a list of pairs.  The two sensor types are the two strings
  the configuration uses.
\<close>

datatype sensor_kind = SCD40Sensor | GravitySensor

record channel_info =
  c_sensor_type :: sensor_kind
  c_interval :: int
  c_last :: int

definition sampling_timer :: int where
  "sampling_timer = 30000"

text \<open>
  \<open>time.ticks_diff\<close> of the MicroPython runtime: the signed difference of two tick
  counts that wrap around at \<open>TICKS_PERIOD\<close>.
\<close>

definition TICKS_PERIOD :: int where
  "TICKS_PERIOD = 2 ^ 30"

definition ticks_diff :: "int \<Rightarrow> int \<Rightarrow> int" where
  "ticks_diff a b =
     (a - b + TICKS_PERIOD div 2) mod TICKS_PERIOD - TICKS_PERIOD div 2"

text \<open>
  The objects \<open>record_data\<close> works on: the multiplexer, the bus, the two sinks with the
  card, its list \<open>data_buffer\<close> and \<open>last_write_time\<close>.  \<open>data_buffer\<close> is one list
  object for the whole run, known to the logger by \<open>data_buffer_ref\<close>.
\<close>

record pipeline =
  p_mux :: multiplexer
  p_bus :: i2c_bus
  p_sd_logger :: sd_logger
  p_sd :: sd_card
  p_ble :: ble_peripheral
  p_data_buffer :: "reading list"
  p_last_write_time :: int

definition data_buffer_ref :: list_ref where
  "data_buffer_ref = 0"

definition scd40_payload :: "scd40_reading \<Rightarrow> pyval" where
  "scd40_payload r =
     (case r of
        (co2, temp, humidity) \<Rightarrow>
          PTuple [case co2 of None \<Rightarrow> PNone | Some i \<Rightarrow> PInt i,
                  case temp of None \<Rightarrow> PNone | Some x \<Rightarrow> PFloat x,
                  case humidity of None \<Rightarrow> PNone | Some x \<Rightarrow> PFloat x])"

text \<open>
  The body of \<open>for channel, info in channel_maps.items()\<close>.  An exception that
  \<open>record_data\<close> does not catch (the \<open>ValueError\<close> of the multiplexer, the
  \<open>OSError\<close> of the oxygen driver) ends the loop: \<open>Inl\<close>.
\<close>

definition visit_channel ::
  "(real \<Rightarrow> bool) \<Rightarrow> int \<Rightarrow> int \<Rightarrow> channel_info \<Rightarrow> pipeline \<Rightarrow>
   py_error + channel_info \<times> pipeline" where
  "visit_channel up current_time channel info p =
     (let elapsed = ticks_diff current_time (c_last info)
      in if elapsed \<ge> sampling_timer then
           (case select_channel channel (p_mux p) of
              (Inl e, m) \<Rightarrow> Inl e
            | (Inr u, m) \<Rightarrow>
                (let info1 = info\<lparr>c_last := current_time\<rparr>
                 in case c_sensor_type info of
                      SCD40Sensor \<Rightarrow>
                        (case SCD40_read_sensor up (SCD40Sensor_init (p_bus p)) of
                           (r, bus1) \<Rightarrow>
                             Inr (info1,
                                  p\<lparr>p_mux := m, p_bus := bus1,
                                    p_data_buffer := p_data_buffer p @
                                      [\<lparr>r_timestamp = real_of_int current_time / 1000,
                                        r_channel = channel, r_sensor_type = ''CO2'',
                                        r_data = scd40_payload r\<rparr>]\<rparr>))
                    | GravitySensor \<Rightarrow>
                        (case GravitySensor_init (p_bus p) of
                           (g, bus1) \<Rightarrow>
                             (case Gravity_read_sensor up DEFAULT_COLLECT_NUM g bus1 of
                                (Inl e, g1, bus2) \<Rightarrow> Inl e
                              | (Inr v, g1, bus2) \<Rightarrow>
                                  Inr (info1,
                                       p\<lparr>p_mux := m, p_bus := bus2,
                                         p_data_buffer := p_data_buffer p @
                                           [\<lparr>r_timestamp = real_of_int current_time / 1000,
                                             r_channel = channel, r_sensor_type = ''O2'',
                                             r_data = PFloat v\<rparr>]\<rparr>)))))
         else Inr (info, p))"

fun scan_channels ::
  "(real \<Rightarrow> bool) \<Rightarrow> int \<Rightarrow> (int \<times> channel_info) list \<Rightarrow> pipeline \<Rightarrow>
   py_error + (int \<times> channel_info) list \<times> pipeline" where
  "scan_channels up current_time [] p = Inr ([], p)"
| "scan_channels up current_time ((channel, info) # rest) p =
     (case visit_channel up current_time channel info p of
        Inl e \<Rightarrow> Inl e
      | Inr (info1, p1) \<Rightarrow>
          (case scan_channels up current_time rest p1 of
             Inl e \<Rightarrow> Inl e
           | Inr (rest1, p2) \<Rightarrow> Inr ((channel, info1) # rest1, p2)))"

text \<open>
  One pass of \<open>while True\<close> with the clock at \<open>current_time\<close>: the channels, then
  the flush to both sinks when 60 s have passed since the last one.
\<close>

definition tick ::
  "(real \<Rightarrow> bool) \<Rightarrow> (real \<Rightarrow> string) \<Rightarrow> (nat \<Rightarrow> tx_outcome) \<Rightarrow> int \<Rightarrow>
   (int \<times> channel_info) list \<times> pipeline \<Rightarrow>
   py_error + (int \<times> channel_info) list \<times> pipeline" where
  "tick up fstr radio current_time st =
     (case st of
        (channel_maps, p) \<Rightarrow>
          (case scan_channels up current_time channel_maps p of
             Inl e \<Rightarrow> Inl e
           | Inr (channel_maps1, p1) \<Rightarrow>
               if ticks_diff current_time (p_last_write_time p1) \<ge> 60000 then
                 (case log_data fstr data_buffer_ref (p_data_buffer p1) (p_sd_logger p1) (p_sd p1) of
                    (lg, sd) \<Rightarrow>
                      Inr (channel_maps1,
                           p1\<lparr>p_sd_logger := lg, p_sd := sd,
                              p_ble := send_data radio (p_data_buffer p1) (p_ble p1),
                              p_data_buffer := [],
                              p_last_write_time := current_time\<rparr>))
               else Inr (channel_maps1, p1)))"

text \<open>
  A finite stretch of the loop.  Each pass has the clock reading, the behaviour of the
  radio during that pass, and the link events (\<open>bt_irq\<close>) that arrived before it.
\<close>

record pass =
  clock :: int
  radio_of :: "nat \<Rightarrow> tx_outcome"
  link_events :: "(int \<times> nat) list"

fun record_data ::
  "(real \<Rightarrow> bool) \<Rightarrow> (real \<Rightarrow> string) \<Rightarrow> pass list \<Rightarrow> (int \<times> channel_info) list \<times> pipeline \<Rightarrow>
   py_error + (int \<times> channel_info) list \<times> pipeline" where
  "record_data up fstr [] st = Inr st"
| "record_data up fstr (x # xs) (channel_maps, p) =
     (let p0 = p\<lparr>p_ble := foldl (\<lambda>b (event, handle). bt_irq event handle b) (p_ble p)
                              (link_events x)\<rparr>
      in case tick up fstr (radio_of x) (clock x) (channel_maps, p0) of
           Inl e \<Rightarrow> Inl e
         | Inr st1 \<Rightarrow> record_data up fstr xs st1)"

text \<open>How many passes of a stretch flush, given the time of the last flush.\<close>

fun flushes :: "int \<Rightarrow> pass list \<Rightarrow> nat" where
  "flushes last_write [] = 0"
| "flushes last_write (x # xs) =
     (if ticks_diff (clock x) last_write \<ge> 60000 then Suc (flushes (clock x) xs)
      else flushes last_write xs)"

section \<open>Properties of the multiplexer driver\<close>

text \<open>
  Claim C9.  For every channel outside \<open>[0, 15]\<close> (so for 16 and for -1),
  \<open>select_channel\<close> raises \<open>ValueError\<close> and leaves the enable pin and all control
  pins as they were; for every channel in \<open>[0, 15]\<close> it returns normally (with the
  enable pin driven low).
\<close>

theorem select_channel_domain:
  "(channel < 0 \<or> 15 < channel \<longrightarrow> select_channel channel m = (Inl ValueError, m)) \<and>
   (0 \<le> channel \<and> channel \<le> 15 \<longrightarrow>
      fst (select_channel channel m) = Inr () \<and> en (snd (select_channel channel m)) = 0)"
  by (auto simp: select_channel_def enable_def Let_def)

theorem select_channel_domain_witness:
  "select_channel 16 \<lparr>en = 1, control_pins = [0, 0, 0, 0]\<rparr> =
     (Inl ValueError, \<lparr>en = 1, control_pins = [0, 0, 0, 0]\<rparr>) \<and>
   select_channel (- 1) \<lparr>en = 1, control_pins = [0, 0, 0, 0]\<rparr> =
     (Inl ValueError, \<lparr>en = 1, control_pins = [0, 0, 0, 0]\<rparr>) \<and>
   fst (select_channel 5 \<lparr>en = 1, control_pins = [0, 0, 0, 0]\<rparr>) = Inr () \<and>
   en (snd (select_channel 5 \<lparr>en = 1, control_pins = [0, 0, 0, 0]\<rparr>)) = 0"
  using select_channel_domain [of 16 "\<lparr>en = 1, control_pins = [0, 0, 0, 0]\<rparr>"]
        select_channel_domain [of "- 1" "\<lparr>en = 1, control_pins = [0, 0, 0, 0]\<rparr>"]
        select_channel_domain [of 5 "\<lparr>en = 1, control_pins = [0, 0, 0, 0]\<rparr>"]
  by simp

section \<open>Properties of the CO2 driver\<close>

subsection \<open>The checksum\<close>

text \<open>
  The integer computation of \<open>crc8\<close> stays within 8 bits, where it is the reference
  register fed with a zero bit; a byte XORed into the register and shifted eight times
  is the same as that byte fed bit by bit.
\<close>

lemma crc_shift_uint: "crc_shift (uint (w :: 8 word)) = uint (ref_feed 0x31 w False)"
proof -
  have top: "(uint w AND 0x80 \<noteq> 0) = bit w 7"
  proof -
    have "uint w AND 0x80 = uint (w AND 0x80)" by (simp add: uint_and)
    also have "\<dots> \<noteq> 0 \<longleftrightarrow> w AND 0x80 \<noteq> 0" by (simp add: uint_0_iff)
    also have "\<dots> \<longleftrightarrow> bit w 7"
    proof -
      have "w AND 0x80 = w AND push_bit 7 1" by simp
      also have "\<dots> = 0 \<longleftrightarrow> \<not> bit w 7"
        by (metis and.commute and_exp_eq_0_iff_not_bit push_bit_of_1)
      finally show ?thesis by simp
    qed
    finally show ?thesis .
  qed
  have m: "(x :: int) AND 0xFF = take_bit 8 x" for x
    by (simp add: take_bit_eq_mask mask_eq_exp_minus_1)
  have sh: "uint (push_bit 1 w) = take_bit 8 (push_bit 1 (uint w))"
    by (simp only: unsigned_push_bit_eq) simp
  have c: "take_bit 8 (49 :: int) = 49" by simp
  have x: "take_bit 8 (push_bit 1 (uint w) XOR 49) = uint (push_bit 1 w XOR 49)"
    by (simp only: take_bit_xor c uint_xor sh) simp
  show ?thesis
  proof (cases "bit w 7")
    case True
    then show ?thesis unfolding crc_shift_def ref_feed_def top m by (simp only: x if_True simp_thms)
  next
    case False
    then show ?thesis unfolding crc_shift_def ref_feed_def top m by (simp only: sh if_False simp_thms)
  qed
qed


lemma crc_bits_uint:
  "crc_bits n (uint (w :: 8 word)) = uint (((\<lambda>r. ref_feed 0x31 r False) ^^ n) w)"
proof (induction n arbitrary: w)
  case 0
  show ?case by simp
next
  case (Suc n)
  show ?case by (simp add: crc_shift_uint Suc.IH funpow_Suc_right del: funpow.simps)
qed

lemma ref_feed_xor:
  assumes "k < 8"
  shows "ref_feed p (s XOR push_bit k b) False = ref_feed p s (bit b (7 - k)) XOR push_bit (Suc k) b"
proof -
  have top: "bit (s XOR push_bit k b) 7 = (bit s 7 \<noteq> bit b (7 - k))"
    using assms by (simp add: bit_xor_iff bit_push_bit_iff)
  have sh: "push_bit 1 (s XOR push_bit k b) = push_bit 1 s XOR push_bit (Suc k) b"
    by (simp add: push_bit_xor flip: push_bit_add) 
  show ?thesis unfolding ref_feed_def top sh by (simp add: xor.assoc xor.commute xor.left_commute)
qed

lemma feed_prefix:
  "k \<le> 8 \<Longrightarrow>
   ((\<lambda>r. ref_feed p r False) ^^ k) (c XOR b) =
     foldl (ref_feed p) c (take k (msb_first b)) XOR push_bit k b"
proof (induction k)
  case 0
  show ?case by simp
next
  case (Suc k)
  then have k: "k < 8" by simp
  have t: "take (Suc k) (msb_first b) = take k (msb_first b) @ [bit b (7 - k)]"
    using k by (simp add: msb_first_def take_Suc_conv_app_nth)
  show ?case using Suc k by (simp add: t ref_feed_xor)
qed

lemma feed_byte:
  "foldl (ref_feed p) c (msb_first b) = ((\<lambda>r. ref_feed p r False) ^^ 8) (c XOR b)"
proof -
  have "push_bit 8 b = 0" by (simp add: push_bit_eq_0_iff) 
  then show ?thesis using feed_prefix [of 8 p c b] by (simp add: msb_first_def)
qed

lemma crc8_from_uint:
  "foldl crc_byte (uint c) data = uint (crc8_reference 0x31 c data)"
proof (induction data arbitrary: c)
  case Nil
  show ?case by (simp add: crc8_reference_def)
next
  case (Cons b data)
  have "crc_byte (uint c) b = uint (foldl (ref_feed 0x31) c (msb_first b))"
    by (simp add: crc_byte_def feed_byte crc_bits_uint flip: uint_xor)
  then show ?case using Cons.IH [of "foldl (ref_feed 0x31) c (msb_first b)"]
    by (simp add: crc8_reference_def)
qed

lemma crc8_is_reference_all: "crc8 data = uint (crc8_reference 0x31 0xFF data)"
  using crc8_from_uint [of "0xFF" data] by (simp add: crc8_def)

lemma ref_feed_inj:
  assumes "ref_feed 0x31 a False = ref_feed 0x31 (b :: 8 word) False"
  shows "a = b"
proof -
  have b0: "bit (ref_feed 0x31 w False) 0 = bit w 7" for w :: "8 word"
    by (simp add: ref_feed_def bit_0 even_xor_iff)
  have top: "bit a 7 = bit b 7" using assms b0 by metis
  have cancel: "x = y" if "x XOR c = y XOR c" for x y c :: "8 word"
  proof -
    have "(x XOR c) XOR c = (y XOR c) XOR c" using that by simp
    then show ?thesis by (simp add: xor.assoc)
  qed
  have sh: "push_bit 1 a = push_bit 1 b"
  proof (cases "bit b 7")
    case True
    then show ?thesis using assms top cancel [of "push_bit 1 a" "0x31" "push_bit 1 b"]
      by (simp add: ref_feed_def)
  next
    case False
    then show ?thesis using assms top by (simp add: ref_feed_def)
  qed
  show ?thesis
  proof (rule bit_word_eqI)
    fix n assume n: "n < LENGTH(8)"
    show "bit a n = bit b n"
    proof (cases "n = 7")
      case True
      then show ?thesis using top by simp
    next
      case False
      then have "Suc n < 8" using n by simp
      then have "bit (push_bit 1 a) (Suc n) = bit a n" "bit (push_bit 1 b) (Suc n) = bit b n"
        by (simp_all only: bit_push_bit_iff) (simp_all add: possible_bit_word)
      then show ?thesis using sh by simp
    qed
  qed
qed

lemma feed8_inj:
  "((\<lambda>r. ref_feed 0x31 r False) ^^ n) a = ((\<lambda>r. ref_feed 0x31 r False) ^^ n) (b :: 8 word) \<Longrightarrow> a = b"
proof (induction n arbitrary: a b)
  case 0
  then show ?case by simp
next
  case (Suc n)
  then have "ref_feed 0x31 (((\<lambda>r. ref_feed 0x31 r False) ^^ n) a) False =
             ref_feed 0x31 (((\<lambda>r. ref_feed 0x31 r False) ^^ n) b) False" by simp
  then show ?case using Suc.IH ref_feed_inj by blast
qed

lemma xor_cancel_right8: "x XOR c = y XOR c \<Longrightarrow> x = y" for x y c :: "8 word"
proof -
  assume "x XOR c = y XOR c"
  then have "(x XOR c) XOR c = (y XOR c) XOR c" by simp
  then show ?thesis by (simp add: xor.assoc)
qed

lemma xor_cancel_left8: "c XOR x = c XOR y \<Longrightarrow> x = y" for x y c :: "8 word"
  using xor_cancel_right8 [of x c y] by (simp add: xor.commute)

lemma crc8_reference_pair:
  "crc8_reference p c [hi, lo] =
     ((\<lambda>r. ref_feed p r False) ^^ 8) (((\<lambda>r. ref_feed p r False) ^^ 8) (c XOR hi) XOR lo)"
  by (simp add: crc8_reference_def feed_byte del: funpow.simps)

lemma crc8_reference_pair_inj_lo:
  "crc8_reference 0x31 c [hi, lo] = crc8_reference 0x31 c [hi, lo'] \<Longrightarrow> lo = lo'"
  unfolding crc8_reference_pair by (blast dest: feed8_inj xor_cancel_left8)

lemma crc8_reference_pair_inj_hi:
  "crc8_reference 0x31 c [hi, lo] = crc8_reference 0x31 c [hi', lo] \<Longrightarrow> hi = hi'"
  unfolding crc8_reference_pair by (blast dest: feed8_inj xor_cancel_left8 xor_cancel_right8)

lemma flip_changes8: "k < 8 \<Longrightarrow> x XOR push_bit k 1 \<noteq> (x :: 8 word)"
proof
  assume k: "k < 8" and e: "x XOR push_bit k 1 = x"
  have "bit (x XOR push_bit k 1) k = (\<not> bit x k)"
    using k by (simp only: bit_xor_iff bit_push_bit_iff) (simp add: possible_bit_word)
  then show False using e by simp
qed

lemma crc8_flip:
  assumes "i < 16"
  shows "crc8 (flip_bit16 i [hi, lo]) \<noteq> crc8 [hi, lo]"
proof (cases "i < 8")
  case True
  have "crc8_reference 0x31 0xFF [hi, lo XOR push_bit i 1] \<noteq> crc8_reference 0x31 0xFF [hi, lo]"
    using crc8_reference_pair_inj_lo [of "0xFF" hi "lo XOR push_bit i 1" lo] flip_changes8 [OF True]
    by blast
  then show ?thesis using True by (simp add: flip_bit16_def crc8_is_reference_all word_uint_eq_iff)
next
  case False
  then have k: "i - 8 < 8" using assms by simp
  have "crc8_reference 0x31 0xFF [hi XOR push_bit (i - 8) 1, lo] \<noteq> crc8_reference 0x31 0xFF [hi, lo]"
    using crc8_reference_pair_inj_hi [of "0xFF" "hi XOR push_bit (i - 8) 1" lo hi] flip_changes8 [OF k]
    by blast
  then show ?thesis using False by (simp add: flip_bit16_def crc8_is_reference_all word_uint_eq_iff)
qed

lemma parse_word_mismatch:
  "crc8 (take 2 (drop k data)) \<noteq> uint (data ! (k + 2)) \<Longrightarrow> \<exists>e. parse_word data k = Inl e"
  by (simp add: parse_word_def Let_def)

lemma SCD40_read_sensor_frame:
  assumes "device bus (length (issued bus)) = Reply ack"
    and "device bus (Suc (length (issued bus))) = Reply frame"
    and "length frame = 9"
  shows "fst (SCD40_read_sensor up bus) =
     (case parse_word frame 0 of
        Inl e \<Rightarrow> (None, None, None)
      | Inr co2 \<Rightarrow>
          (case parse_word frame 3 of
             Inl e \<Rightarrow> (None, None, None)
           | Inr temp_raw \<Rightarrow>
               (case parse_word frame 6 of
                  Inl e \<Rightarrow> (None, None, None)
                | Inr rh_raw \<Rightarrow>
                    (Some co2, Some (round2 up (- 45 + 175 * (real_of_int temp_raw / 65535))),
                     Some (round2 up (100 * (real_of_int rh_raw / 65535)))))))"
  using assms
  by (simp add: SCD40_read_sensor_def writeto_def readfrom_def Let_def split: sum.splits)

text \<open>
  Claim C6.  \<open>crc8\<close> over any 2-byte word is the reference CRC-8 with polynomial 0x31,
  initial value 0xFF and no reflection; flipping any single bit of the word changes the
  computed CRC; and a 9-byte frame in which the checksum byte of some word differs from
  the computed CRC makes \<open>read_sensor\<close> fail as a whole: it returns
  \<open>(None, None, None)\<close>, no partially valid data.
\<close>

theorem crc8_checks:
  "crc8 [hi, lo] = uint (crc8_reference 0x31 0xFF [hi, lo]) \<and>
   (\<forall>i<16. crc8 (flip_bit16 i [hi, lo]) \<noteq> crc8 [hi, lo]) \<and>
   (device bus (length (issued bus)) = Reply ack \<and>
    device bus (Suc (length (issued bus))) = Reply frame \<and> length frame = 9 \<and>
    (\<exists>k\<in>{0, 3, 6}. crc8 (take 2 (drop k frame)) \<noteq> uint (frame ! (k + 2))) \<longrightarrow>
      fst (SCD40_read_sensor up bus) = (None, None, None))"
proof (intro conjI impI allI)
  show "crc8 [hi, lo] = uint (crc8_reference 0x31 0xFF [hi, lo])"
    by (rule crc8_is_reference_all)
next
  fix i :: nat assume "i < 16"
  then show "crc8 (flip_bit16 i [hi, lo]) \<noteq> crc8 [hi, lo]" by (rule crc8_flip)
next
  assume a: "device bus (length (issued bus)) = Reply ack \<and>
    device bus (Suc (length (issued bus))) = Reply frame \<and> length frame = 9 \<and>
    (\<exists>k\<in>{0, 3, 6}. crc8 (take 2 (drop k frame)) \<noteq> uint (frame ! (k + 2)))"
  then obtain k where k: "k \<in> {0, 3, 6}" "crc8 (take 2 (drop k frame)) \<noteq> uint (frame ! (k + 2))"
    by blast
  then obtain e where "parse_word frame k = Inl e" using parse_word_mismatch by blast
  with k(1) a show "fst (SCD40_read_sensor up bus) = (None, None, None)"
    by (auto simp: SCD40_read_sensor_frame [of bus ack frame] split: sum.splits)
qed

theorem crc8_checks_witness:
  "crc8 [0xBE, 0xEF] = uint (crc8_reference 0x31 0xFF [0xBE, 0xEF]) \<and>
   (3 :: nat) < 16 \<and> crc8 (flip_bit16 3 [0xBE, 0xEF]) \<noteq> crc8 [0xBE, 0xEF] \<and>
   fst (SCD40_read_sensor half_even
          \<lparr>device = replies [Reply [], Reply [0x01, 0x90, 0x4C, 0x00, 0x00, 0x80, 0xFF, 0xFF, 0xAC]], issued = []\<rparr>) =
     (None, None, None)"
proof -
  let ?f = "[0x01, 0x90, 0x4C, 0x00, 0x00, 0x80, 0xFF, 0xFF, 0xAC] :: 8 word list"
  let ?bf = "\<lparr>device = replies [Reply [], Reply ?f], issued = []\<rparr>"
  have c2: "crc8 [0x00, 0x00] = 0x81" by code_simp
  have bad: "\<exists>k\<in>{0, 3, 6}. crc8 (take 2 (drop k ?f)) \<noteq> uint (?f ! (k + 2))"
    by (simp add: c2)
  have hyp: "device ?bf (length (issued ?bf)) = Reply [] \<and>
    device ?bf (Suc (length (issued ?bf))) = Reply ?f \<and> length ?f = 9 \<and>
    (\<exists>k\<in>{0, 3, 6}. crc8 (take 2 (drop k ?f)) \<noteq> uint (?f ! (k + 2)))"
    using bad by (simp add: replies_def)
  have t: "(3 :: nat) < 16" by simp
  show ?thesis
    using crc8_checks [where hi = "0xBE" and lo = "0xEF" and bus = ?bf and ack = "[]"
        and frame = ?f and up = half_even] hyp t
    by blast
qed

subsection \<open>Decoding\<close>

lemma be16: "push_bit 8 (uint a) OR uint (b :: 8 word) = 256 * uint a + uint b"
proof -
  have "push_bit 8 (uint a) + uint b = push_bit 8 (uint a) OR uint b"
  proof (rule disjunctive_add)
    fix n
    show "\<not> bit (push_bit 8 (uint a)) n \<or> \<not> bit (uint b) n"
      by (auto simp: bit_push_bit_iff bit_uint_iff dest: bit_imp_le_length)
  qed
  then show ?thesis by (simp add: push_bit_eq_mult)
qed

lemma parse_word_ok:
  "k + 2 < length data \<Longrightarrow> crc8 (take 2 (drop k data)) = uint (data ! (k + 2)) \<Longrightarrow>
   parse_word data k = Inr (256 * uint (data ! k) + uint (data ! (k + 1)))"
  by (simp add: parse_word_def Let_def be16)

lemma nearbyint_of_int: "nearbyint up (of_int m) = m"
  by (simp add: nearbyint_def)

lemma round2_int: "round2 up (of_int n) = of_int n"
proof -
  have "(of_int n :: real) * 100 = of_int (n * 100)" by simp
  then have "nearbyint up (of_int n * 100) = n * 100" by (simp only: nearbyint_of_int)
  then show ?thesis by (simp add: round2_def)
qed

lemma nearbyint_close: "\<bar>real_of_int (nearbyint up y) - y\<bar> \<le> 1 / 2"
proof -
  have "real_of_int \<lfloor>y\<rfloor> \<le> y" "y < real_of_int \<lfloor>y\<rfloor> + 1" by linarith+
  then show ?thesis by (auto simp: nearbyint_def Let_def)
qed

lemma round2_close: "\<bar>round2 up x - x\<bar> \<le> 1 / 200"
proof -
  have "round2 up x - x = (real_of_int (nearbyint up (x * 100)) - x * 100) / 100"
    by (simp add: round2_def field_simps)
  then have "\<bar>round2 up x - x\<bar> = \<bar>(real_of_int (nearbyint up (x * 100)) - x * 100) / 100\<bar>"
    by (simp only:)
  also have "\<dots> = \<bar>real_of_int (nearbyint up (x * 100)) - x * 100\<bar> / 100"
    by (simp add: abs_divide)
  also have "\<dots> \<le> (1 / 2) / 100"
    using nearbyint_close [of up "x * 100"] by (simp add: divide_right_mono)
  finally show ?thesis by simp
qed

lemma round2_grid: "\<exists>n. round2 up x = real_of_int n / 100"
  by (auto simp: round2_def)

text \<open>
  A value on the grid of hundredths that is within 1/200 of \<open>x\<close> is the grid point \<open>m / 100\<close>
  as soon as that one is strictly within 1/200 of \<open>x\<close>.
\<close>

lemma grid_unique:
  assumes "t = real_of_int n / 100" and "\<bar>t - x\<bar> \<le> 1 / 200"
    and "\<bar>real_of_int m / 100 - x\<bar> < 1 / 200"
  shows "t = real_of_int m / 100"
proof -
  have "\<bar>real_of_int n / 100 - real_of_int m / 100\<bar> < 1 / 100"
    using assms by linarith
  then have "\<bar>real_of_int (n - m)\<bar> < 1" by (simp add: field_simps)
  then have "\<bar>n - m\<bar> < 1" by linarith
  then have "n = m" by simp
  then show ?thesis using assms(1) by simp
qed

text \<open>
  Claim C7.  For every 9-byte frame whose three checksums are right, \<open>read_sensor\<close>
  returns the first word as the CO2 value, and for the temperature and the relative
  humidity the values \<open>-45 + 175 * raw / 65535\<close> of the second word and
  \<open>100 * raw / 65535\<close> of the third, each rounded to 2 decimal places: what is
  returned is a whole number of hundredths and lies within half a hundredth of the exact
  value.  A raw temperature word of 0 gives -45 and one of 65535 gives 130.  (Floats are
  the reals here.)
\<close>

theorem SCD40_decoding:
  assumes "device bus (length (issued bus)) = Reply ack"
    and "device bus (Suc (length (issued bus))) = Reply frame"
    and "length frame = 9"
    and "\<forall>k\<in>{0, 3, 6}. crc8 (take 2 (drop k frame)) = uint (frame ! (k + 2))"
  shows "\<exists>t h.
           fst (SCD40_read_sensor up bus) =
             (Some (256 * uint (frame ! 0) + uint (frame ! 1)), Some t, Some h) \<and>
           (\<exists>n. t = real_of_int n / 100) \<and>
           \<bar>t - (- 45 + 175 * (real_of_int (256 * uint (frame ! 3) + uint (frame ! 4)) / 65535))\<bar>
             \<le> 1 / 200 \<and>
           (\<exists>n. h = real_of_int n / 100) \<and>
           \<bar>h - 100 * (real_of_int (256 * uint (frame ! 6) + uint (frame ! 7)) / 65535)\<bar>
             \<le> 1 / 200 \<and>
           (256 * uint (frame ! 3) + uint (frame ! 4) = 0 \<longrightarrow> t = - 45) \<and>
           (256 * uint (frame ! 3) + uint (frame ! 4) = 65535 \<longrightarrow> t = 130)"
proof -
  define T where
    "T = - 45 + 175 * (real_of_int (256 * uint (frame ! 3) + uint (frame ! 4)) / 65535)"
  define H where "H = 100 * (real_of_int (256 * uint (frame ! 6) + uint (frame ! 7)) / 65535)"
  have p0: "parse_word frame 0 = Inr (256 * uint (frame ! 0) + uint (frame ! 1))"
    using assms(3,4) parse_word_ok [of 0 frame] by simp
  have p3: "parse_word frame 3 = Inr (256 * uint (frame ! 3) + uint (frame ! 4))"
    using assms(3,4) parse_word_ok [of 3 frame] by simp
  have p6: "parse_word frame 6 = Inr (256 * uint (frame ! 6) + uint (frame ! 7))"
    using assms(3,4) parse_word_ok [of 6 frame] by simp
  have r: "fst (SCD40_read_sensor up bus) =
           (Some (256 * uint (frame ! 0) + uint (frame ! 1)),
            Some (round2 up T), Some (round2 up H))"
    unfolding T_def H_def
    by (simp only: SCD40_read_sensor_frame [OF assms(1,2,3)] p0 p3 p6 sum.case)
  have lo: "256 * uint (frame ! 3) + uint (frame ! 4) = 0 \<longrightarrow> round2 up T = - 45"
    using round2_int [of up "- 45"] by (simp add: T_def)
  have hi: "256 * uint (frame ! 3) + uint (frame ! 4) = 65535 \<longrightarrow> round2 up T = 130"
    using round2_int [of up 130] by (simp add: T_def)
  show ?thesis
    unfolding T_def [symmetric] H_def [symmetric]
    using r round2_grid [of up T] round2_close [of up T] round2_grid [of up H]
      round2_close [of up H] lo hi
    by blast
qed

theorem SCD40_decoding_witness:
  "fst (SCD40_read_sensor half_even
          \<lparr>device = replies [Reply [], Reply [0x01, 0xF4, 0x33, 0x66, 0x67, 0xA2, 0x5E, 0xB9, 0x3C]],
             issued = []\<rparr>) =
     (Some 500, Some 25, Some 37) \<and>
   fst (SCD40_read_sensor half_even
          \<lparr>device = replies [Reply [], Reply [0x01, 0x90, 0x4C, 0x00, 0x00, 0x81, 0xFF, 0xFF, 0xAC]],
             issued = []\<rparr>) =
     (Some 400, Some (- 45), Some 100) \<and>
   fst (SCD40_read_sensor half_even
          \<lparr>device = replies [Reply [], Reply [0x01, 0x90, 0x4C, 0xFF, 0xFF, 0xAC, 0x00, 0x00, 0x81]],
             issued = []\<rparr>) =
     (Some 400, Some 130, Some 0)"
proof -
  let ?d = "[0x01, 0xF4, 0x33, 0x66, 0x67, 0xA2, 0x5E, 0xB9, 0x3C] :: 8 word list"
  let ?f = "[0x01, 0x90, 0x4C, 0x00, 0x00, 0x81, 0xFF, 0xFF, 0xAC] :: 8 word list"
  let ?g = "[0x01, 0x90, 0x4C, 0xFF, 0xFF, 0xAC, 0x00, 0x00, 0x81] :: 8 word list"
  let ?bd = "\<lparr>device = replies [Reply [], Reply ?d], issued = []\<rparr>"
  let ?bf = "\<lparr>device = replies [Reply [], Reply ?f], issued = []\<rparr>"
  let ?bg = "\<lparr>device = replies [Reply [], Reply ?g], issued = []\<rparr>"
  have c1: "crc8 [0x01, 0x90] = 0x4C" by code_simp
  have c2: "crc8 [0x00, 0x00] = 0x81" by code_simp
  have c3: "crc8 [0xFF, 0xFF] = 0xAC" by code_simp
  have c4: "crc8 [0x01, 0xF4] = 0x33" by code_simp
  have c5: "crc8 [0x66, 0x67] = 0xA2" by code_simp
  have c6: "crc8 [0x5E, 0xB9] = 0x3C" by code_simp
  have cd: "\<forall>k\<in>{0, 3, 6}. crc8 (take 2 (drop k ?d)) = uint (?d ! (k + 2))"
    by (simp add: c4 c5 c6)
  have cf: "\<forall>k\<in>{0, 3, 6}. crc8 (take 2 (drop k ?f)) = uint (?f ! (k + 2))"
    by (simp add: c1 c2 c3)
  have cg: "\<forall>k\<in>{0, 3, 6}. crc8 (take 2 (drop k ?g)) = uint (?g ! (k + 2))"
    by (simp add: c1 c2 c3)
  have d: "fst (SCD40_read_sensor half_even ?bd) = (Some 500, Some 25, Some 37)"
  proof -
    obtain t h n m where
      r: "fst (SCD40_read_sensor half_even ?bd) = (Some 500, Some t, Some h)" and
      t: "t = real_of_int n / 100" "\<bar>t - (- 45 + 175 * (26215 / 65535))\<bar> \<le> 1 / 200" and
      h: "h = real_of_int m / 100" "\<bar>h - 100 * (24249 / 65535)\<bar> \<le> 1 / 200"
      using SCD40_decoding [where bus = ?bd and ack = "[]" and frame = ?d and up = half_even, OF _ _ _ cd]
      by (auto simp: replies_def)
    have "t = real_of_int 2500 / 100" by (rule grid_unique [OF t]) simp
    moreover have "h = real_of_int 3700 / 100" by (rule grid_unique [OF h]) simp
    ultimately show ?thesis using r by simp
  qed
  have f: "fst (SCD40_read_sensor half_even ?bf) = (Some 400, Some (- 45), Some 100)"
  proof -
    obtain t h m where
      r: "fst (SCD40_read_sensor half_even ?bf) = (Some 400, Some t, Some h)" and
      t: "t = - 45" and
      h: "h = real_of_int m / 100" "\<bar>h - 100 * (65535 / 65535)\<bar> \<le> 1 / 200"
      using SCD40_decoding [where bus = ?bf and ack = "[]" and frame = ?f and up = half_even, OF _ _ _ cf]
      by (auto simp: replies_def)
    have "h = real_of_int 10000 / 100" by (rule grid_unique [OF h]) simp
    then show ?thesis using r t by simp
  qed
  have g: "fst (SCD40_read_sensor half_even ?bg) = (Some 400, Some 130, Some 0)"
  proof -
    obtain t h m where
      r: "fst (SCD40_read_sensor half_even ?bg) = (Some 400, Some t, Some h)" and
      t: "t = 130" and
      h: "h = real_of_int m / 100" "\<bar>h - 100 * (0 / 65535)\<bar> \<le> 1 / 200"
      using SCD40_decoding [where bus = ?bg and ack = "[]" and frame = ?g and up = half_even, OF _ _ _ cg]
      by (auto simp: replies_def)
    have "h = real_of_int 0 / 100" by (rule grid_unique [OF h]) simp
    then show ?thesis using r t by simp
  qed
  show ?thesis using d f g by simp
qed

section \<open>Properties of the dissolved-oxygen driver\<close>








lemma GravitySensor_init_history: "history_ok (fst (GravitySensor_init bus)) []"
  by (simp add: GravitySensor_init_def try_initialize_def get_flash_def history_ok_def Let_def
        split: prod.splits sum.splits list.splits)




section \<open>Properties of the wireless sink\<close>

lemma chunks_drop2:
  "i < length xs \<Longrightarrow> chunks 2 (drop i xs) = take 2 (drop i xs) # chunks 2 (drop (i + 2) xs)"
proof -
  assume "i < length xs"
  then obtain y ys where d: "drop i xs = y # ys" by (cases "drop i xs") auto
  have "drop (i + 2) xs = drop 2 (drop i xs)" by (simp add: add.commute)
  then show ?thesis by (simp add: d)
qed

lemma send_frames_all_ok:
  "(\<forall>k. k * 2 < length all_data \<longrightarrow> radio k = TxOk) \<Longrightarrow> even i \<Longrightarrow>
   send_frames radio conn all_data i ops =
     (True, ops @ concat (map (\<lambda>f. [GattsWrite f, GattsNotify conn f]) (chunks 2 (drop i all_data))))"
proof (induction radio conn all_data i ops rule: send_frames.induct)
  case (1 radio conn all_data i ops)
  show ?case
  proof (cases "i < length all_data")
    case False
    then show ?thesis by (simp add: send_frames.simps [of radio conn all_data i ops])
  next
    case True
    have "(i div 2) * 2 < length all_data" using True "1.prems"(2) by simp
    then have ok: "radio (i div BATCH_SIZE) = TxOk" using "1.prems"(1) by (simp add: BATCH_SIZE_def)
    have ev: "even (i + BATCH_SIZE)" using "1.prems"(2) by (simp add: BATCH_SIZE_def)
    note ih = "1.IH" [OF True refl ok "1.prems"(1) ev]
    show ?thesis
      using True ok ih
      by (simp add: send_frames.simps [of radio conn all_data i ops] chunks_drop2 BATCH_SIZE_def
            Let_def)
  qed
qed

lemma notified_append: "notified (xs @ ys) = notified xs @ notified ys"
  by (induction xs rule: notified.induct) simp_all

lemma notified_frames:
  "notified (concat (map (\<lambda>f. [GattsWrite f, GattsNotify conn f]) fs)) = fs"
  by (induction fs) simp_all

lemma chunks_concat: "concat (chunks n xs) = xs"
  by (induction n xs rule: chunks.induct) simp_all

lemma chunks_length: "f \<in> set (chunks n xs) \<Longrightarrow> f \<noteq> [] \<and> length f \<le> max 1 n"
  by (induction n xs rule: chunks.induct) auto

lemma chunks_five: "length xs = 5 \<Longrightarrow> map length (chunks 2 xs) = [2, 2, 1]"
proof -
  assume "length xs = 5"
  then obtain a b c d e where "xs = [a, b, c, d, e]"
    by (auto simp: length_Suc_conv eval_nat_numeral)
  then show ?thesis by simp
qed

lemma send_frames_second_fails:
  assumes "length all_data = 5" and "radio 0 = TxOk" and "radio 1 \<noteq> TxOk"
  shows "\<exists>ops'. send_frames radio conn all_data 0 ops = (False, ops') \<and>
           notified ops' = notified ops @ [take 2 all_data]"
proof -
  let ?ops1 = "ops @ [GattsWrite (take 2 all_data), GattsNotify conn (take 2 all_data)]"
  have s0: "send_frames radio conn all_data 0 ops = send_frames radio conn all_data 2 ?ops1"
    using assms(1,2)
    by (simp add: send_frames.simps [of radio conn all_data 0 ops] BATCH_SIZE_def Let_def
          numeral_2_eq_2)
  have r1: "radio (2 div BATCH_SIZE) = radio 1" by (simp add: BATCH_SIZE_def)
  show ?thesis
  proof (cases "radio 1")
    case TxOk
    then show ?thesis using assms(3) by simp
  next
    case WriteRaises
    then have "send_frames radio conn all_data 2 ?ops1 = (False, ?ops1)"
      using assms(1) by (subst send_frames.simps) (simp add: r1 Let_def)
    then show ?thesis by (simp add: s0 notified_append)
  next
    case NotifyRaises
    then have "send_frames radio conn all_data 2 ?ops1 =
        (False, ?ops1 @ [GattsWrite (take BATCH_SIZE (drop 2 all_data))])"
      using assms(1) by (subst send_frames.simps) (simp add: r1 Let_def)
    then show ?thesis by (simp add: s0 notified_append)
  qed
qed

text \<open>
  Claim C3.  When \<open>send_data\<close> is called while connected and no frame transmission
  raises, the buffer followed by the incoming batch goes out, in order, in consecutive
  frames of at most 2 readings (a buffer of 5 readings: 3 frames of 2, 2 and 1), and
  afterwards the buffer is empty and the radio is switched off.
\<close>

theorem send_data_connected_success:
  "(b_conn_handle b = Some conn \<and>
    (\<forall>k. k * 2 < length (b_buffer b @ data) \<longrightarrow> radio k = TxOk) \<longrightarrow>
      notified (b_ops (send_data radio data b)) =
        notified (b_ops b) @ chunks 2 (b_buffer b @ data) \<and>
      b_buffer (send_data radio data b) = [] \<and>
      \<not> b_active (send_data radio data b)) \<and>
   concat (chunks 2 (b_buffer b @ data)) = b_buffer b @ data \<and>
   (\<forall>f \<in> set (chunks 2 (b_buffer b @ data)). f \<noteq> [] \<and> length f \<le> 2) \<and>
   (length (b_buffer b @ data) = 5 \<longrightarrow> map length (chunks 2 (b_buffer b @ data)) = [2, 2, 1])"
proof (intro conjI impI ballI)
  assume a: "b_conn_handle b = Some conn \<and>
    (\<forall>k. k * 2 < length (b_buffer b @ data) \<longrightarrow> radio k = TxOk)"
  then have ok: "\<forall>k. k * 2 < length (b_buffer b @ data) \<longrightarrow> radio k = TxOk" by blast
  have sf: "send_frames radio conn (b_buffer b @ data) 0 (b_ops b) =
     (True, b_ops b @ concat (map (\<lambda>f. [GattsWrite f, GattsNotify conn f]) (chunks 2 (b_buffer b @ data))))"
    using send_frames_all_ok [OF ok, of 0 conn "b_ops b"] by simp
  show "notified (b_ops (send_data radio data b)) = notified (b_ops b) @ chunks 2 (b_buffer b @ data)"
    using a by (simp add: send_data_def sf shutdown_ble_def notified_append notified_frames)
  show "b_buffer (send_data radio data b) = []"
    using a by (simp add: send_data_def sf shutdown_ble_def)
  show "\<not> b_active (send_data radio data b)"
    using a by (simp add: send_data_def sf shutdown_ble_def)
next
  show "concat (chunks 2 (b_buffer b @ data)) = b_buffer b @ data" by (rule chunks_concat)
next
  fix f assume "f \<in> set (chunks 2 (b_buffer b @ data))"
  then have "f \<noteq> [] \<and> length f \<le> max 1 2" by (rule chunks_length)
  then show "f \<noteq> []" "length f \<le> 2" by simp_all
next
  assume "length (b_buffer b @ data) = 5"
  then show "map length (chunks 2 (b_buffer b @ data)) = [2, 2, 1]" by (rule chunks_five)
qed

theorem send_data_connected_success_witness:
  "map (map r_timestamp)
     (notified (b_ops (send_data (radio_script []) [o2_reading 4, o2_reading 5]
        \<lparr>b_name = ''ESP32'', b_buffer = [o2_reading 1, o2_reading 2, o2_reading 3],
           b_conn_handle = Some 0, b_active = True, b_ops = []\<rparr>))) =
     [[1, 2], [3, 4], [5]] \<and>
   b_buffer (send_data (radio_script []) [o2_reading 4, o2_reading 5]
        \<lparr>b_name = ''ESP32'', b_buffer = [o2_reading 1, o2_reading 2, o2_reading 3],
           b_conn_handle = Some 0, b_active = True, b_ops = []\<rparr>) = [] \<and>
   \<not> b_active (send_data (radio_script []) [o2_reading 4, o2_reading 5]
        \<lparr>b_name = ''ESP32'', b_buffer = [o2_reading 1, o2_reading 2, o2_reading 3],
           b_conn_handle = Some 0, b_active = True, b_ops = []\<rparr>)"
  using send_data_connected_success [of
      "\<lparr>b_name = ''ESP32'', b_buffer = [o2_reading 1, o2_reading 2, o2_reading 3],
         b_conn_handle = Some 0, b_active = True, b_ops = []\<rparr>"
      0 "[o2_reading 4, o2_reading 5]" "radio_script []"]
  by (simp add: radio_script_def o2_reading_def)

text \<open>
  Claim C4.  When \<open>send_data\<close> is called while disconnected, every reading of the
  incoming batch is appended, in order, to the buffer, \<open>enable_ble\<close> runs (the radio is
  activated and advertising restarts) and no frame is transmitted.  The branch has no
  loop and no wait: the call returns at once.
\<close>

theorem send_data_disconnected:
  "b_conn_handle b = None \<longrightarrow>
     b_buffer (send_data radio data b) = b_buffer b @ data \<and>
     b_ops (send_data radio data b) =
       b_ops b @ [BleActive True, BleIrq, RegisterServices, GapAdvertise (b_name b)] \<and>
     b_active (send_data radio data b) \<and>
     notified (b_ops (send_data radio data b)) = notified (b_ops b) \<and>
     b_conn_handle (send_data radio data b) = None"
  by (simp add: send_data_def enable_ble_def advertise_def notified_append)

theorem send_data_disconnected_witness:
  "b_buffer (send_data (radio_script []) [o2_reading 4, o2_reading 5]
      \<lparr>b_name = ''ESP32'', b_buffer = [o2_reading 1], b_conn_handle = None,
         b_active = False, b_ops = []\<rparr>) =
     [o2_reading 1, o2_reading 4, o2_reading 5] \<and>
   b_active (send_data (radio_script []) [o2_reading 4, o2_reading 5]
      \<lparr>b_name = ''ESP32'', b_buffer = [o2_reading 1], b_conn_handle = None,
         b_active = False, b_ops = []\<rparr>) \<and>
   notified (b_ops (send_data (radio_script []) [o2_reading 4, o2_reading 5]
      \<lparr>b_name = ''ESP32'', b_buffer = [o2_reading 1], b_conn_handle = None,
         b_active = False, b_ops = []\<rparr>)) = []"
  using send_data_disconnected [of
      "\<lparr>b_name = ''ESP32'', b_buffer = [o2_reading 1], b_conn_handle = None,
         b_active = False, b_ops = []\<rparr>"
      "radio_script []" "[o2_reading 4, o2_reading 5]"]
  by simp

text \<open>
  Claim C2, as amended.  When \<open>send_data\<close> is called while connected, the buffer and
  the incoming batch total 5 readings and the transmission of the 2nd frame raises,
  nothing is taken out of the buffer: afterwards it holds all 5 readings in order, those
  of the 1st frame included, followed by the incoming batch once more; only the 1st
  frame reached the peer, and the radio is left as it was (it is not switched off).
\<close>

theorem send_data_second_frame_raises:
  "b_conn_handle b = Some conn \<and> length (b_buffer b @ data) = 5 \<and>
   radio 0 = TxOk \<and> radio 1 \<noteq> TxOk \<longrightarrow>
     b_buffer (send_data radio data b) = b_buffer b @ data @ data \<and>
     b_active (send_data radio data b) = b_active b \<and>
     notified (b_ops (send_data radio data b)) = notified (b_ops b) @ [take 2 (b_buffer b @ data)]"
proof
  assume a: "b_conn_handle b = Some conn \<and> length (b_buffer b @ data) = 5 \<and>
   radio 0 = TxOk \<and> radio 1 \<noteq> TxOk"
  then obtain ops' where sf: "send_frames radio conn (b_buffer b @ data) 0 (b_ops b) = (False, ops')"
    and n: "notified ops' = notified (b_ops b) @ [take 2 (b_buffer b @ data)]"
    using send_frames_second_fails [of "b_buffer b @ data" radio conn "b_ops b"] by blast
  show "b_buffer (send_data radio data b) = b_buffer b @ data @ data \<and>
     b_active (send_data radio data b) = b_active b \<and>
     notified (b_ops (send_data radio data b)) = notified (b_ops b) @ [take 2 (b_buffer b @ data)]"
    using a n by (simp add: send_data_def sf)
qed

theorem send_data_second_frame_raises_witness:
  "b_buffer (send_data (radio_script [TxOk, NotifyRaises]) [o2_reading 4, o2_reading 5]
      \<lparr>b_name = ''ESP32'', b_buffer = [o2_reading 1, o2_reading 2, o2_reading 3],
         b_conn_handle = Some 0, b_active = True, b_ops = []\<rparr>) =
     [o2_reading 1, o2_reading 2, o2_reading 3, o2_reading 4, o2_reading 5,
      o2_reading 4, o2_reading 5] \<and>
   b_active (send_data (radio_script [TxOk, NotifyRaises]) [o2_reading 4, o2_reading 5]
      \<lparr>b_name = ''ESP32'', b_buffer = [o2_reading 1, o2_reading 2, o2_reading 3],
         b_conn_handle = Some 0, b_active = True, b_ops = []\<rparr>)"
  using send_data_second_frame_raises [of
      "\<lparr>b_name = ''ESP32'', b_buffer = [o2_reading 1, o2_reading 2, o2_reading 3],
         b_conn_handle = Some 0, b_active = True, b_ops = []\<rparr>"
      0 "[o2_reading 4, o2_reading 5]" "radio_script [TxOk, NotifyRaises]"]
  by (simp add: radio_script_def)

text \<open>
  The claim as first stated fails: with 5 readings buffered, an empty incoming batch and
  the 2nd frame raising, the buffer afterwards is not the 3 readings of frames 2 and 3.
\<close>

theorem send_data_keeps_sent_frame_counterexample:
  "b_buffer (send_data (radio_script [TxOk, NotifyRaises]) []
      \<lparr>b_name = ''ESP32'',
         b_buffer = [o2_reading 1, o2_reading 2, o2_reading 3, o2_reading 4, o2_reading 5],
         b_conn_handle = Some 0, b_active = True, b_ops = []\<rparr>) \<noteq>
     [o2_reading 3, o2_reading 4, o2_reading 5]"
  by (simp add: send_data_def radio_script_def send_frames.simps BATCH_SIZE_def Let_def)

section \<open>Properties of the durable log sink\<close>

text \<open>
  Two appends of one batch to a log that does not exist yet: the file is created with
  the header once, and every reading adds one line at each append, as long as the card
  is mounted, the timer is not zero and no field of a line holds a newline.
\<close>

lemma write_entries_eq:
  "l_timer lg \<noteq> 0 \<Longrightarrow>
   write_entries fstr lg es content = content @ concat (map (log_line fstr lg) es)"
  by (induction es arbitrary: content) simp_all

lemma file_lines_line:
  "CHR 0x0A \<notin> set l \<Longrightarrow> file_lines (l @ CHR 0x0A # rest) = l # file_lines rest"
  by (induction l) auto

lemma file_lines_concat:
  "\<forall>l \<in> set ls. CHR 0x0A \<notin> set l \<Longrightarrow>
   file_lines (concat (map (\<lambda>l. l @ [CHR 0x0A]) ls) @ rest) = ls @ file_lines rest"
  by (induction ls) (simp_all add: file_lines_line)

lemma log_line_body:
  "log_line fstr lg e = butlast (log_line fstr lg e) @ [CHR 0x0A]"
proof -
  have "\<exists>body. log_line fstr lg e = body @ [CHR 0x0A]"
    unfolding log_line_def by (metis append.assoc)
  then obtain body where b: "log_line fstr lg e = body @ [CHR 0x0A]" by blast
  show ?thesis unfolding b by simp
qed

lemma log_lines_concat:
  "concat (map (log_line fstr lg) es) =
   concat (map (\<lambda>l. l @ [CHR 0x0A]) (map (\<lambda>e. butlast (log_line fstr lg e)) es))"
proof (induction es)
  case Nil
  show ?case by simp
next
  case (Cons e es)
  show ?case using Cons.IH log_line_body [of fstr lg e] by simp
qed

lemma basename_no_slash: "CHR ''/'' \<notin> set (basename path)"
  by (auto simp: basename_def dest: set_takeWhileD)

lemma log_data_twice_lines:
  assumes m: "mounted sd"
    and direct: "l_log_file lg = ''/sd/'' @ basename (l_log_file lg)"
    and fresh: "l_log_file lg \<notin> dom (files sd)" "basename (l_log_file lg) \<notin> subdirs sd"
    and t: "l_timer lg \<noteq> 0"
    and nl: "\<forall>e \<in> set batch. CHR 0x0A \<notin> set (butlast (log_line fstr lg e))"
  shows "map_option file_lines
           (files (snd (log_data fstr ref batch (fst (log_data fstr ref batch lg sd))
                          (snd (log_data fstr ref batch lg sd))))
              (l_log_file lg)) =
         Some (''timestamp,channel_id,sensor_type,data'' #
               map (\<lambda>e. butlast (log_line fstr lg e)) batch @
               map (\<lambda>e. butlast (log_line fstr lg e)) batch)"
proof -
  let ?path = "l_log_file lg"
  let ?lg1 = "lg\<lparr>l_data_buffer := l_data_buffer lg @ [ref]\<rparr>"
  let ?body = "\<lambda>e. butlast (log_line fstr lg e)"
  let ?L = "concat (map (\<lambda>l. l @ [CHR 0x0A]) (map ?body batch))"
  let ?sd1 = "sd\<lparr>files := (files sd)(?path \<mapsto> header @ ?L)\<rparr>"
  have w: "write_entries fstr lg' batch c = c @ ?L"
    if "l_device_name lg' = l_device_name lg" "l_timer lg' = l_timer lg" for lg' c
  proof -
    have "write_entries fstr lg' batch c = c @ concat (map (log_line fstr lg') batch)"
      using that t by (simp add: write_entries_eq)
    also have "map (log_line fstr lg') batch = map (log_line fstr lg) batch"
      using that by (simp add: log_line_def)
    also have "concat (map (log_line fstr lg) batch) = ?L" by (rule log_lines_concat)
    finally show ?thesis .
  qed
  have unlisted: "\<not> in_listdir_sd sd (basename ?path)"
    using fresh direct by (simp add: in_listdir_sd_def)
  have listed: "in_listdir_sd ?sd1 (basename ?path)"
    using direct basename_no_slash [of ?path] by (simp add: in_listdir_sd_def)
  have first: "log_data fstr ref batch lg sd = (?lg1, ?sd1)"
    using m unlisted by (simp add: log_data_def prepare_log_file_def Let_def w)
  have second: "files (snd (log_data fstr ref batch ?lg1 ?sd1)) ?path = Some ((header @ ?L) @ ?L)"
    using m listed by (simp add: log_data_def prepare_log_file_def Let_def w)
  have h: "header = ''timestamp,channel_id,sensor_type,data'' @ [CHR 0x0A] @ []"
    by (simp add: header_def)
  have nlh: "CHR 0x0A \<notin> set ''timestamp,channel_id,sensor_type,data''" by simp
  have nls: "\<forall>l \<in> set (map ?body batch). CHR 0x0A \<notin> set l" using nl by simp
  have "file_lines ((header @ ?L) @ ?L) =
        ''timestamp,channel_id,sensor_type,data'' # file_lines (?L @ ?L @ [])"
    unfolding h using file_lines_line [OF nlh] by simp
  also have "file_lines (?L @ ?L @ []) = map ?body batch @ file_lines (?L @ [])"
    using file_lines_concat [OF nls] by simp
  also have "file_lines (?L @ []) = map ?body batch @ file_lines []"
    using file_lines_concat [OF nls] by blast
  finally have fl: "file_lines ((header @ ?L) @ ?L) =
      ''timestamp,channel_id,sensor_type,data'' # map ?body batch @ map ?body batch"
    by simp
  show ?thesis unfolding first using second fl by simp
qed

text \<open>
  Where the base name of the log file is not an entry of \<open>/sd\<close> (the file lies in a
  directory below \<open>/sd\<close>, or elsewhere), every call starts the file again from the
  header.
\<close>

lemma log_data_unlisted_restarts:
  assumes "mounted sd" and "\<not> in_listdir_sd sd (basename (l_log_file lg))"
    and "l_timer lg \<noteq> 0"
  shows "files (snd (log_data fstr ref batch lg sd)) (l_log_file lg) =
           Some (header @ concat (map (log_line fstr lg) batch))"
proof -
  let ?lg1 = "lg\<lparr>l_data_buffer := l_data_buffer lg @ [ref]\<rparr>"
  have eq: "log_line fstr ?lg1 = log_line fstr lg"
    by (simp add: log_line_def fun_eq_iff)
  show ?thesis
    using assms by (simp add: log_data_def prepare_log_file_def Let_def write_entries_eq eq)
qed

lemma str_int_2: "str_int 2 = ''2''" by code_simp
lemma str_int_1: "str_int 1 = ''1''" by code_simp

text \<open>
  Claim C8.  Appending the same batch twice to a freshly created log gives one header
  line followed by \<open>2 * len(batch)\<close> data lines, one per reading, with multi-value
  payloads comma-joined.  The line count holds, but \<open>_format_data\<close> joins a payload
  only when it is a \<open>list\<close>: for the tuple that \<open>SCD40Sensor.read_sensor\<close>
  returns, here \<open>(None, None, None)\<close>, each data line carries the text of the tuple,
  with its parentheses and spaces, instead of \<open>None,None,None\<close>.
\<close>

theorem log_data_tuple_payload:
  "map_option file_lines
     (files
        (snd (log_data fstr 0
                [\<lparr>r_timestamp = 60, r_channel = 1, r_sensor_type = ''CO2'',
                   r_data = PTuple [PNone, PNone, PNone]\<rparr>]
                (fst (log_data fstr 0
                        [\<lparr>r_timestamp = 60, r_channel = 1, r_sensor_type = ''CO2'',
                           r_data = PTuple [PNone, PNone, PNone]\<rparr>]
                        \<lparr>l_data_buffer = [], l_device_name = ''ESP32'', l_timer = 30,
                           l_log_file = ''/sd/log_sensors.txt''\<rparr>
                        \<lparr>mounted = True, files = Map.empty, subdirs = {}\<rparr>))
                (snd (log_data fstr 0
                        [\<lparr>r_timestamp = 60, r_channel = 1, r_sensor_type = ''CO2'',
                           r_data = PTuple [PNone, PNone, PNone]\<rparr>]
                        \<lparr>l_data_buffer = [], l_device_name = ''ESP32'', l_timer = 30,
                           l_log_file = ''/sd/log_sensors.txt''\<rparr>
                        \<lparr>mounted = True, files = Map.empty, subdirs = {}\<rparr>))))
        ''/sd/log_sensors.txt'') =
   Some [''timestamp,channel_id,sensor_type,data'',
         ''2,ESP32,1,CO2,(None, None, None)'',
         ''2,ESP32,1,CO2,(None, None, None)'']"
  by (simp add: log_data_def prepare_log_file_def in_listdir_sd_def basename_def header_def
        log_line_def format_data_def py_int_def str_int_2 str_int_1 Let_def)

section \<open>Properties of the acquisition loop\<close>

lemma visit_channel_due:
  "visit_channel up current_time channel info p = Inr (info, p) \<or>
   ticks_diff current_time (c_last info) \<ge> sampling_timer"
  by (simp add: visit_channel_def Let_def)

lemma visit_channel_not_due:
  "ticks_diff current_time (c_last info) < sampling_timer \<Longrightarrow>
   visit_channel up current_time channel info p = Inr (info, p)"
  by (simp add: visit_channel_def Let_def)

lemma visit_channel_visited:
  "sampling_timer \<le> ticks_diff current_time (c_last info) \<Longrightarrow>
   visit_channel up current_time channel info p = Inr (info1, p1) \<Longrightarrow>
   c_last info1 = current_time \<and> length (p_data_buffer p1) = Suc (length (p_data_buffer p))"
  by (auto simp: visit_channel_def Let_def split: prod.splits sum.splits sensor_kind.splits)

text \<open>
  Claim C1.  A channel is visited on a tick if and only if the time since its last
  sample is at least its own interval; a channel with interval 5000 and last sample 0
  is visited at 5000.  The loop compares the elapsed time with the global
  \<open>sampling_timer\<close> (30000) and never reads the channel's \<open>interval\<close>: at an elapsed
  time of 5000 the channel with interval 5000 is passed over, the pipeline and the
  channel's \<open>last\<close> are unchanged.
\<close>

theorem visit_channel_ignores_interval:
  "ticks_diff 5000 (c_last \<lparr>c_sensor_type = SCD40Sensor, c_interval = 5000, c_last = 0\<rparr>) = 5000 \<and>
   visit_channel up 5000 1 \<lparr>c_sensor_type = SCD40Sensor, c_interval = 5000, c_last = 0\<rparr> p =
     Inr (\<lparr>c_sensor_type = SCD40Sensor, c_interval = 5000, c_last = 0\<rparr>, p)"
  by (simp add: visit_channel_def ticks_diff_def TICKS_PERIOD_def sampling_timer_def Let_def)

lemma visit_channel_frame:
  "visit_channel up t ch info p = Inr (info1, p1) \<Longrightarrow>
   p_sd_logger p1 = p_sd_logger p \<and> p_last_write_time p1 = p_last_write_time p \<and>
   p_sd p1 = p_sd p \<and> p_ble p1 = p_ble p"
  by (auto simp: visit_channel_def Let_def split: if_splits prod.splits sum.splits sensor_kind.splits)

lemma scan_channels_frame:
  "scan_channels up t cm p = Inr (cm1, p1) \<Longrightarrow>
   p_sd_logger p1 = p_sd_logger p \<and> p_last_write_time p1 = p_last_write_time p"
proof (induction cm arbitrary: p cm1 p1)
  case Nil
  then show ?case by simp
next
  case (Cons x cm)
  obtain ch info where x: "x = (ch, info)" by (cases x)
  from Cons.prems obtain info1 p2 rest1 where
    v: "visit_channel up t ch info p = Inr (info1, p2)" and
    s: "scan_channels up t cm p2 = Inr (rest1, p1)"
    by (auto simp: x split: sum.splits prod.splits)
  show ?case using visit_channel_frame [OF v] Cons.IH [OF s] by simp
qed

lemma log_data_buffer: "l_data_buffer (fst (log_data fstr ref entries lg sd)) = l_data_buffer lg @ [ref]"
  by (simp add: log_data_def Let_def)

lemma tick_data_buffer:
  assumes "tick up fstr radio t (cm, p) = Inr (cm1, p1)"
  shows "l_data_buffer (p_sd_logger p1) =
           l_data_buffer (p_sd_logger p) @
             (if ticks_diff t (p_last_write_time p) \<ge> 60000 then [data_buffer_ref] else []) \<and>
         p_last_write_time p1 =
           (if ticks_diff t (p_last_write_time p) \<ge> 60000 then t else p_last_write_time p)"
proof -
  from assms obtain cm2 p2 where s: "scan_channels up t cm p = Inr (cm2, p2)"
    by (auto simp: tick_def split: sum.splits)
  note f = scan_channels_frame [OF s]
  show ?thesis
  proof (cases "ticks_diff t (p_last_write_time p) \<ge> 60000")
    case True
    then show ?thesis
      using assms f log_data_buffer [of fstr data_buffer_ref "p_data_buffer p2" "p_sd_logger p2" "p_sd p2"]
      by (auto simp: tick_def s split: prod.splits)
  next
    case False
    then show ?thesis using assms f by (auto simp: tick_def s)
  qed
qed

lemma record_data_data_buffer:
  "record_data up fstr passes (cm, p) = Inr (cm1, p1) \<Longrightarrow>
   l_data_buffer (p_sd_logger p1) =
     l_data_buffer (p_sd_logger p) @ replicate (flushes (p_last_write_time p) passes) data_buffer_ref"
proof (induction passes arbitrary: cm p)
  case Nil
  then show ?case by simp
next
  case (Cons x xs)
  let ?p0 = "p\<lparr>p_ble := foldl (\<lambda>b (event, handle). bt_irq event handle b) (p_ble p) (link_events x)\<rparr>"
  from Cons.prems obtain cm2 p2 where
    t: "tick up fstr (radio_of x) (clock x) (cm, ?p0) = Inr (cm2, p2)" and
    r: "record_data up fstr xs (cm2, p2) = Inr (cm1, p1)"
    by (auto simp: Let_def split: sum.splits)
  note tb = tick_data_buffer [OF t]
  note ih = Cons.IH [OF r]
  show ?case using tb ih by (simp add: replicate_app_Cons_same)
qed

text \<open>
  Claim C10.  Every call of \<open>log_data\<close> appends the list it was handed to the logger's
  \<open>data_buffer\<close>, whatever happens to the file, and the recording loop never clears
  that field: over any stretch of the loop that does not end in an exception, the field
  grows by one entry, the loop's batch list, at every flush and is never shortened.
\<close>

theorem data_buffer_grows:
  "l_data_buffer (fst (log_data fstr ref entries lg sd)) = l_data_buffer lg @ [ref] \<and>
   (record_data up fstr passes (cm, p) = Inr (cm1, p1) \<longrightarrow>
      l_data_buffer (p_sd_logger p1) =
        l_data_buffer (p_sd_logger p) @
          replicate (flushes (p_last_write_time p) passes) data_buffer_ref \<and>
      length (l_data_buffer (p_sd_logger p)) \<le> length (l_data_buffer (p_sd_logger p1)))"
  using record_data_data_buffer [of up fstr passes cm p cm1 p1]
    log_data_buffer [of fstr ref entries lg sd]
  by auto

theorem data_buffer_grows_witness:
  "(case record_data half_even (str_int \<circ> py_int)
        [\<lparr>clock = 60000, radio_of = radio_script [], link_events = []\<rparr>,
         \<lparr>clock = 120000, radio_of = radio_script [], link_events = [(1, 7)]\<rparr>]
        ([(1, \<lparr>c_sensor_type = SCD40Sensor, c_interval = 5000, c_last = 0\<rparr>)],
         \<lparr>p_mux = \<lparr>en = 1, control_pins = [0, 0, 0, 0]\<rparr>,
            p_bus = \<lparr>device = replies [], issued = []\<rparr>,
            p_sd_logger = \<lparr>l_data_buffer = [], l_device_name = ''ESP32'', l_timer = 30,
                             l_log_file = ''/sd/log_sensors.txt''\<rparr>,
            p_sd = \<lparr>mounted = True, files = Map.empty, subdirs = {}\<rparr>,
            p_ble = \<lparr>b_name = ''ESP32'', b_buffer = [], b_conn_handle = None,
                       b_active = True, b_ops = []\<rparr>,
            p_data_buffer = [], p_last_write_time = 0\<rparr>) of
      Inl e \<Rightarrow> False
    | Inr (cm1, p1) \<Rightarrow> l_data_buffer (p_sd_logger p1) = [data_buffer_ref, data_buffer_ref])"
proof -
  let ?passes = "[\<lparr>clock = 60000, radio_of = radio_script [], link_events = []\<rparr>,
         \<lparr>clock = 120000, radio_of = radio_script [], link_events = [(1, 7)]\<rparr>]"
  let ?cm = "[(1, \<lparr>c_sensor_type = SCD40Sensor, c_interval = 5000, c_last = 0\<rparr>)]"
  let ?p = "\<lparr>p_mux = \<lparr>en = 1, control_pins = [0, 0, 0, 0]\<rparr>,
            p_bus = \<lparr>device = replies [], issued = []\<rparr>,
            p_sd_logger = \<lparr>l_data_buffer = [], l_device_name = ''ESP32'', l_timer = 30,
                             l_log_file = ''/sd/log_sensors.txt''\<rparr>,
            p_sd = \<lparr>mounted = True, files = Map.empty, subdirs = {}\<rparr>,
            p_ble = \<lparr>b_name = ''ESP32'', b_buffer = [], b_conn_handle = None,
                       b_active = True, b_ops = []\<rparr>,
            p_data_buffer = [], p_last_write_time = 0\<rparr>"
  have "\<exists>cm1 p1. record_data half_even (str_int \<circ> py_int) ?passes (?cm, ?p) = Inr (cm1, p1)"
    by (simp add: tick_def visit_channel_def ticks_diff_def TICKS_PERIOD_def sampling_timer_def
          Let_def select_channel_def SCD40Sensor_init_def start_periodic_measurement_def
          writeto_def SCD40_read_sensor_def replies_def split: prod.splits)
  then obtain cm1 p1 where r: "record_data half_even (str_int \<circ> py_int) ?passes (?cm, ?p) = Inr (cm1, p1)"
    by blast
  have f: "flushes 0 ?passes = 2"
    by (simp add: ticks_diff_def TICKS_PERIOD_def)
  have "l_data_buffer (p_sd_logger p1) = [data_buffer_ref, data_buffer_ref]"
    using data_buffer_grows [where fstr = "str_int \<circ> py_int" and ref = 0 and entries = "[]"
        and lg = "p_sd_logger ?p" and sd = "p_sd ?p" and up = half_even and passes = ?passes
        and cm = ?cm and p = ?p and ?cm1.0 = cm1 and ?p1.0 = p1] r f
    by (simp add: numeral_2_eq_2)
  then show ?thesis by (simp only: r sum.case prod.case)
qed

end
